theory Spec2Isabelle
  imports Main "HOL-Library.Sublist"
begin

section \<open>JavaScript values\<close>

text \<open>
  The values that flow through the command-line entry point: option values handed over
  by the option parser, results of handlers, the parsed project manifest. Numbers are
  the integer-valued ones together with \<open>NaN\<close> (what \<open>Number.parseInt\<close> can give);
  an object is the list of its own properties, whose keys are distinct.
\<close>

datatype jsval =
    Undefined
  | Null
  | JBool bool
  | JNum int
  | JNaN
  | JStr string
  | JArr "jsval list"
  | JObj "(string \<times> jsval) list"

text \<open>\<open>Boolean(v)\<close>, the test of \<open>if (v)\<close> and of \<open>v ? a : b\<close>.\<close>

fun truthy :: "jsval \<Rightarrow> bool" where
  "truthy Undefined = False"
| "truthy Null = False"
| "truthy (JBool b) = b"
| "truthy (JNum n) = (n \<noteq> 0)"
| "truthy JNaN = False"
| "truthy (JStr s) = (s \<noteq> [])"
| "truthy (JArr xs) = True"
| "truthy (JObj kvs) = True"

text \<open>\<open>!v\<close>\<close>

definition js_not :: "jsval \<Rightarrow> jsval" where
  "js_not v = JBool (\<not> truthy v)"

text \<open>\<open>typeof v === 'number'\<close>\<close>

fun is_number :: "jsval \<Rightarrow> bool" where
  "is_number (JNum n) = True"
| "is_number JNaN = True"
| "is_number v = False"

datatype js_exception = ModuleNotFound | SyntaxError | TypeError | OtherError string

text \<open>
  Reading the member \<open>k\<close> of a value, for a key that no built-in prototype defines
  (the two keys read below are \<open>dependencies\<close> and \<open>lux-framework\<close>): \<open>undefined\<close> and
  \<open>null\<close> throw a \<open>TypeError\<close>, an object gives its own property or \<open>undefined\<close>,
  every other value gives \<open>undefined\<close>.
\<close>

fun get_member :: "jsval \<Rightarrow> string \<Rightarrow> js_exception + jsval" where
  "get_member Undefined k = Inl TypeError"
| "get_member Null k = Inl TypeError"
| "get_member (JObj kvs) k = (case map_of kvs k of None \<Rightarrow> Inr Undefined | Some v \<Rightarrow> Inr v)"
| "get_member v k = Inr Undefined"

text \<open>An \<open>Error\<close> object, as far as the entry point reads it.\<close>

record jserror =
  message :: string
  stack :: string

section \<open>Strings\<close>

text \<open>\<open>s.indexOf(needle)\<close>: the first position where \<open>needle\<close> starts, or \<open>-1\<close>.\<close>

fun indexOf_from :: "nat \<Rightarrow> string \<Rightarrow> string \<Rightarrow> int" where
  "indexOf_from i [] needle = (if needle = [] then int i else - 1)"
| "indexOf_from i (c # cs) needle =
     (if prefix needle (c # cs) then int i else indexOf_from (Suc i) cs needle)"

definition indexOf :: "string \<Rightarrow> string \<Rightarrow> int" where
  "indexOf s needle = indexOf_from 0 s needle"

text \<open>
  A string is the sequence of its code units, each below 256 here. Of the white space
  and line terminators that \<open>Number.parseInt\<close> skips, these are the ones below 256.
\<close>

definition is_space :: "char \<Rightarrow> bool" where
  "is_space c =
     (c \<in> set [CHR '' '', CHR 0x09, CHR 0x0A, CHR 0x0B, CHR 0x0C, CHR 0x0D, CHR 0xA0])"

definition is_digit :: "char \<Rightarrow> bool" where
  "is_digit c = (48 \<le> (of_char c :: nat) \<and> (of_char c :: nat) \<le> 57)"

definition digit_value :: "char \<Rightarrow> int" where
  "digit_value c = int (of_char c) - 48"

fun digits_value :: "int \<Rightarrow> string \<Rightarrow> int" where
  "digits_value acc [] = acc"
| "digits_value acc (c # cs) = digits_value (10 * acc + digit_value c) cs"

text \<open>
  \<open>Number.parseInt(s, 10)\<close>: leading white space is skipped, one sign is read, then the
  longest run of decimal digits; with no digit the result is \<open>NaN\<close>. An integer up
  to \<open>2^53\<close> is a Number as it stands; beyond that the engine rounds, and \<open>big\<close> is the
  Number it gives.
\<close>

definition parse_digits :: "(int \<Rightarrow> jsval) \<Rightarrow> string \<Rightarrow> jsval" where
  "parse_digits big s =
     (let ds = takeWhile is_digit s
      in if ds = [] then JNaN
         else if digits_value 0 ds \<le> 2 ^ 53 then JNum (digits_value 0 ds)
         else big (digits_value 0 ds))"

fun js_negate :: "jsval \<Rightarrow> jsval" where
  "js_negate (JNum n) = JNum (- n)"
| "js_negate v = v"

definition parseInt10 :: "(int \<Rightarrow> jsval) \<Rightarrow> string \<Rightarrow> jsval" where
  "parseInt10 big s =
     (case dropWhile is_space s of
        [] \<Rightarrow> JNaN
      | c # cs \<Rightarrow>
          if c = CHR ''-'' then js_negate (parse_digits big cs)
          else if c = CHR ''+'' then parse_digits big cs
          else parse_digits big (c # cs))"

section \<open>The process and its collaborators\<close>

text \<open>
  What the entry point does to the outside is recorded as a trace: a call of the gateway
  \<open>exec\<close> (a pipeline step starts), a call of the handler behind it, the way the step's
  promise settles, a call of \<open>console.log\<close> or \<open>console.error\<close> with its arguments, and
  a write to \<open>process.stdout\<close>, and a call of \<open>process.exit\<close> with its argument.
\<close>

datatype settled = Resolved jsval | Rejected jserror | Never

datatype event =
    Invoke string "jsval list"
  | Handler string "jsval list"
  | Settle string settled
  | ConsoleLog "string list"
  | ConsoleError string
  | StdoutWrite string
  | ProcessExit jsval

text \<open>
  The state of the process: the working directory, \<open>process.env\<close> (with the value each
  key was set to; Node keeps its string form, which nothing here reads back), the keys
  that \<open>process.env\<close> inherits from its prototype (\<open>toString\<close> and the like), the
  state \<open>ext\<close> of everything the handlers work on (the file system, the database), and
  the trace so far.
\<close>

record 's world =
  cwd :: string
  env :: "string \<rightharpoonup> jsval"
  inherited :: "string list"
  ext :: 's
  events :: "event list"

text \<open>
  What the entry point takes from its platform and its imports: \<open>os.EOL\<close>, the path
  separator of \<open>path.join\<close>, the two colouring functions of \<open>chalk\<close> (\<open>red\<close> on the
  value the listener of \<open>*\<close> is called with, \<open>green\<close> on a string), \<open>VERSION\<close> of
  \<open>package.json\<close>, the help text of the option parser, \<open>require\<close> of a JSON file (which
  throws or gives the parsed value), the handlers exported by \<open>../dist\<close>, and the text
  the engine gives to the \<open>stack\<close> of \<open>new Error(msg)\<close>.
  A handler is an asynchronous function: it reads the working directory and the
  environment, changes the external state, and returns a promise that resolves, rejects
  with an \<open>Error\<close> object, or never settles.
\<close>

record 's runtime =
  EOL :: string
  path_sep :: string
  red :: "jsval \<Rightarrow> string"
  green :: "string \<Rightarrow> string"
  package_version :: string
  help_text :: string
  require_json :: "'s \<Rightarrow> string \<Rightarrow> js_exception + jsval"
  handlers :: "string \<Rightarrow> jsval list \<Rightarrow> string \<Rightarrow> (string \<rightharpoonup> jsval) \<Rightarrow> 's \<Rightarrow> settled \<times> 's"
  error_stack :: "string \<Rightarrow> string"

text \<open>
  \<open>path.join\<close> of segments that need no normalisation: a separator between two
  segments, unless the first already ends with one (the root directory).
\<close>

definition path_join2 :: "string \<Rightarrow> string \<Rightarrow> string \<Rightarrow> string" where
  "path_join2 sp a b = (if suffix sp a then a @ b else a @ sp @ b)"

fun path_join :: "string \<Rightarrow> string list \<Rightarrow> string" where
  "path_join sp [] = ''.''"
| "path_join sp [a] = a"
| "path_join sp (a # b # rest) = path_join sp (path_join2 sp a b # rest)"

definition new_Error :: "'s runtime \<Rightarrow> string \<Rightarrow> jserror" where
  "new_Error rt msg = \<lparr>message = msg, stack = error_stack rt msg\<rparr>"

section \<open>The entry point\<close>

subsection \<open>inLuxProject\<close>

definition manifest_path :: "'s runtime \<Rightarrow> 's world \<Rightarrow> string" where
  "manifest_path rt w = path_join (path_sep rt) [cwd w, ''package.json'']"

text \<open>The body of the \<open>try\<close> block: every exception it can raise is a left value.\<close>

definition manifest_check :: "'s runtime \<Rightarrow> 's world \<Rightarrow> js_exception + bool" where
  "manifest_check rt w =
     (case require_json rt (ext w) (manifest_path rt w) of
        Inl e \<Rightarrow> Inl e
      | Inr manifest \<Rightarrow>
          (case get_member manifest ''dependencies'' of
             Inl e \<Rightarrow> Inl e
           | Inr dependencies \<Rightarrow>
               (case get_member dependencies ''lux-framework'' of
                  Inl e \<Rightarrow> Inl e
                | Inr v \<Rightarrow> Inr (truthy v))))"

definition fixture_segment :: "'s runtime \<Rightarrow> string" where
  "fixture_segment rt = path_join (path_sep rt) [''lux'', ''test'', ''test-app'']"

definition inLuxProject :: "'s runtime \<Rightarrow> 's world \<Rightarrow> bool" where
  "inLuxProject rt w =
     (if indexOf (cwd w) (fixture_segment rt) \<ge> 0 then True
      else (case manifest_check rt w of Inl err \<Rightarrow> False | Inr b \<Rightarrow> b))"

subsection \<open>commandNotFound\<close>

definition commandNotFound :: "'s runtime \<Rightarrow> jsval \<Rightarrow> 's world \<Rightarrow> 's world" where
  "commandNotFound rt cmd w =
     w\<lparr>events := events w @
        [ConsoleLog
          [EOL rt @ ''  '' @ red rt cmd @ '' is not a valid command.'' @ EOL rt @ EOL rt,
           '' Use '' @ green rt ''lux --help'' @ '' for a full list of commands.'' @ EOL rt]]\<rparr>"

subsection \<open>setEnvVar\<close>

text \<open>
  \<open>Reflect.has(process.env, key)\<close>: the key is a variable of the environment, or one
  that \<open>process.env\<close> inherits.
\<close>

definition env_has :: "'s world \<Rightarrow> string \<Rightarrow> bool" where
  "env_has w key = (key \<in> dom (env w) \<or> key \<in> set (inherited w))"

text \<open>The function has no \<open>return\<close>: its value is \<open>undefined\<close> on every path.\<close>

definition setEnvVar :: "string \<Rightarrow> jsval \<Rightarrow> jsval \<Rightarrow> 's world \<Rightarrow> jsval \<times> 's world" where
  "setEnvVar key val def w =
     (if truthy val then (Undefined, w\<lparr>env := (env w)(key \<mapsto> val)\<rparr>)
      else if \<not> env_has w key then (Undefined, w\<lparr>env := (env w)(key \<mapsto> def)\<rparr>)
      else (Undefined, w))"

subsection \<open>Promises\<close>

text \<open>
  A promise chain runs on one thread, each callback after the promise before it has
  settled, so a promise is a state transformer that also says how it settled.
  \<open>p.then(f)\<close> calls \<open>f\<close> only when \<open>p\<close> resolves; \<open>p.catch(h)\<close> calls \<open>h\<close> only
  when \<open>p\<close> rejects.
\<close>

type_synonym 's promise = "'s world \<Rightarrow> settled \<times> 's world"

definition Promise_resolve :: "jsval \<Rightarrow> 's promise" where
  "Promise_resolve v w = (Resolved v, w)"

definition Promise_reject :: "jserror \<Rightarrow> 's promise" where
  "Promise_reject e w = (Rejected e, w)"

definition then_p :: "'s promise \<Rightarrow> (jsval \<Rightarrow> 's promise) \<Rightarrow> 's promise" where
  "then_p p f w =
     (case p w of
        (Resolved v, w') \<Rightarrow> f v w'
      | (Rejected e, w') \<Rightarrow> (Rejected e, w')
      | (Never, w') \<Rightarrow> (Never, w'))"

definition catch_p :: "'s promise \<Rightarrow> (jserror \<Rightarrow> 's promise) \<Rightarrow> 's promise" where
  "catch_p p h w =
     (case p w of
        (Resolved v, w') \<Rightarrow> (Resolved v, w')
      | (Rejected e, w') \<Rightarrow> h e w'
      | (Never, w') \<Rightarrow> (Never, w'))"

subsection \<open>exec\<close>

text \<open>
  The pattern \<open>^(?:db:.+|test|build|serve|console|generate|destroy)$\<close>; the dot
  matches every character but a line terminator.
\<close>

definition is_line_terminator :: "char \<Rightarrow> bool" where
  "is_line_terminator c = (c = CHR 0x0A \<or> c = CHR 0x0D)"

definition needsProject :: "string \<Rightarrow> bool" where
  "needsProject cmd =
     ((prefix ''db:'' cmd \<and> drop 3 cmd \<noteq> [] \<and> list_all (\<lambda>c. \<not> is_line_terminator c) (drop 3 cmd))
      \<or> cmd \<in> set [''test'', ''build'', ''serve'', ''console'', ''generate'', ''destroy''])"

definition project_error_message :: string where
  "project_error_message = ''Directory does not contain a valid Lux application.''"

text \<open>
  The handler is looked up first and called last; when the command needs a project and
  the directory is none, the promise is rejected and the handler is not called.
\<close>

definition exec :: "'s runtime \<Rightarrow> string \<Rightarrow> jsval list \<Rightarrow> 's promise" where
  "exec rt cmd args w =
     (if needsProject cmd \<and> \<not> inLuxProject rt w
      then (let r = Rejected (new_Error rt project_error_message)
            in (r, w\<lparr>events := events w @ [Invoke cmd args, Settle cmd r]\<rparr>))
      else (case handlers rt cmd args (cwd w) (env w) (ext w) of
              (r, x) \<Rightarrow>
                (r, w\<lparr>ext := x,
                      events := events w @ [Invoke cmd args, Handler cmd args, Settle cmd r]\<rparr>)))"

subsection \<open>exit and rescue\<close>

text \<open>\<open>process.exit\<close> ends the process: nothing of the chain runs after it.\<close>

definition exit :: "jsval \<Rightarrow> 's promise" where
  "exit code w =
     (Never, w\<lparr>events := events w @ [ProcessExit (if is_number code then code else JNum 0)]\<rparr>)"

definition rescue :: "jserror \<Rightarrow> 's promise" where
  "rescue err w = exit (JNum 1) (w\<lparr>events := events w @ [ConsoleError (stack err)]\<rparr>)"

subsection \<open>The commands\<close>

text \<open>The options object the option parser hands to an action.\<close>

record options =
  environment :: jsval
  useWeak :: jsval
  skipBuild :: jsval
  hot :: jsval
  port :: jsval
  cluster :: jsval
  database :: jsval

definition arg :: "jsval list \<Rightarrow> nat \<Rightarrow> jsval" where
  "arg args i = (if i < length args then args ! i else Undefined)"

type_synonym 's action = "'s runtime \<Rightarrow> jsval list \<Rightarrow> options \<Rightarrow> 's world \<Rightarrow> 's world"

definition new_action :: "'s action" where
  "new_action rt args opts w =
     snd (catch_p (then_p (exec rt ''create'' [arg args 0, database opts]) exit) rescue w)"

definition test_action :: "'s action" where
  "test_action rt args opts w =
     snd (catch_p (then_p (exec rt ''test'' []) exit) rescue w)"

definition build_action :: "'s action" where
  "build_action rt args opts w =
     (let w1 = snd (setEnvVar ''NODE_ENV'' (environment opts) (JStr ''development'') w)
      in snd (catch_p (then_p (exec rt ''build'' [js_not (useWeak opts)]) exit) rescue w1))"

definition console_action :: "'s action" where
  "console_action rt args opts w =
     (let w1 = snd (setEnvVar ''NODE_ENV'' (environment opts) (JStr ''development'') w);
          w2 = w1\<lparr>env := (env w1)(''LUX_CONSOLE'' \<mapsto> JBool True)\<rparr>
      in snd (catch_p
               (then_p
                 (then_p
                   (if truthy (skipBuild opts) then Promise_resolve Undefined
                    else exec rt ''build'' [js_not (useWeak opts)])
                   (\<lambda>_. exec rt ''repl'' []))
                 exit)
               rescue w2))"

definition serve_action :: "'s action" where
  "serve_action rt args opts w =
     (let useStrict = js_not (useWeak opts);
          w1 = snd (setEnvVar ''PORT'' (port opts) (JNum 4000) w);
          w2 = snd (setEnvVar ''NODE_ENV'' (environment opts) (JStr ''development'') w1)
      in snd (catch_p
               (then_p
                 (if truthy (skipBuild opts) then Promise_resolve Undefined
                  else exec rt ''build'' [useStrict])
                 (\<lambda>_. exec rt ''serve''
                        [JObj [(''hot'', hot opts), (''cluster'', cluster opts),
                               (''useStrict'', useStrict)]]))
               rescue w2))"

definition generate_action :: "'s action" where
  "generate_action rt args opts w =
     snd (catch_p
           (then_p
             (exec rt ''generate''
               [JObj [(''type'', arg args 0), (''name'', arg args 1), (''attrs'', arg args 2)]])
             exit)
           rescue w)"

definition destroy_action :: "'s action" where
  "destroy_action rt args opts w =
     snd (catch_p
           (then_p
             (exec rt ''destroy'' [JObj [(''type'', arg args 0), (''name'', arg args 1)]])
             exit)
           rescue w)"

text \<open>
  The six database commands but \<open>db:reset\<close> differ in the name of their one database
  handler only.
\<close>

definition db_single_action :: "string \<Rightarrow> 's action" where
  "db_single_action target rt args opts w =
     (let useStrict = js_not (useWeak opts);
          w1 = snd (setEnvVar ''NODE_ENV'' (environment opts) (JStr ''development'') w)
      in snd (catch_p
               (then_p
                 (then_p
                   (if truthy (skipBuild opts) then Promise_resolve Undefined
                    else exec rt ''build'' [useStrict])
                   (\<lambda>_. exec rt target []))
                 exit)
               rescue w1))"

definition db_create_action :: "'s action" where
  "db_create_action = db_single_action ''dbcreate''"

definition db_drop_action :: "'s action" where
  "db_drop_action = db_single_action ''dbdrop''"

definition db_reset_action :: "'s action" where
  "db_reset_action rt args opts w =
     (let useStrict = js_not (useWeak opts);
          w1 = snd (setEnvVar ''NODE_ENV'' (environment opts) (JStr ''development'') w)
      in snd (catch_p
               (then_p
                 (then_p
                   (then_p
                     (if truthy (skipBuild opts) then Promise_resolve Undefined
                      else exec rt ''build'' [useStrict])
                     (\<lambda>_. exec rt ''dbdrop'' []))
                   (\<lambda>_. exec rt ''dbcreate'' []))
                 exit)
               rescue w1))"

definition db_migrate_action :: "'s action" where
  "db_migrate_action = db_single_action ''dbmigrate''"

definition db_rollback_action :: "'s action" where
  "db_rollback_action = db_single_action ''dbrollback''"

definition db_seed_action :: "'s action" where
  "db_seed_action = db_single_action ''dbseed''"

subsection \<open>The registry and the dispatcher\<close>

text \<open>
  Every \<open>cli.command(...)\<close> registers its action under the command's name and under its
  alias; the alias of \<open>d\<close> is the whole string given to \<open>alias\<close>.
\<close>

definition registry :: "(string \<times> 's action) list" where
  "registry =
     [(''n'', new_action), (''new'', new_action),
      (''t'', test_action), (''test'', test_action),
      (''b'', build_action), (''build'', build_action),
      (''c'', console_action), (''console'', console_action),
      (''s'', serve_action), (''serve'', serve_action),
      (''g'', generate_action), (''generate'', generate_action),
      (''d'', destroy_action), (''destroy <type> <name>'', destroy_action),
      (''db:create'', db_create_action),
      (''db:drop'', db_drop_action),
      (''db:reset'', db_reset_action),
      (''db:migrate'', db_migrate_action),
      (''db:rollback'', db_rollback_action),
      (''db:seed'', db_seed_action)]"

text \<open>
  \<open>cli.version(VERSION)\<close> leaves a listener on \<open>version\<close> that writes the version and
  ends the process; \<open>cli.help()\<close> writes the help text and ends the process, with no
  code given.
\<close>

definition version_listener :: "'s runtime \<Rightarrow> 's world \<Rightarrow> 's world" where
  "version_listener rt w =
     w\<lparr>events := events w @ [StdoutWrite (package_version rt @ [CHR 0x0A]), ProcessExit (JNum 0)]\<rparr>"

definition cli_help :: "'s runtime \<Rightarrow> 's world \<Rightarrow> 's world" where
  "cli_help rt w = w\<lparr>events := events w @ [StdoutWrite (help_text rt), ProcessExit Undefined]\<rparr>"

text \<open>
  \<open>cli.parse(process.argv)\<close> and the lines after it, for the operands of the command
  line. The option parser (in the releases where the listener of \<open>*\<close> is called at all)
  takes the first operand as the name of an event: when a listener is registered on it,
  the operand is taken off and the listener called, and otherwise the listener of \<open>*\<close>
  is called with the array of all operands. Listeners are registered on the names of
  the registry, on \<open>version\<close>, and on \<open>*\<close> itself. An action gets \<open>args\<close> and \<open>opts\<close>,
  what the option parser makes of the command line for it, and leaves the command in
  the operand array; the help is printed when that array is empty in the end.
\<close>

definition dispatch :: "'s runtime \<Rightarrow> string list \<Rightarrow> jsval list \<Rightarrow> options \<Rightarrow> 's world \<Rightarrow> 's world" where
  "dispatch rt operands args opts w =
     (case operands of
        [] \<Rightarrow> cli_help rt w
      | name # rest \<Rightarrow>
          (case map_of registry name of
             Some action \<Rightarrow> action rt args opts w
           | None \<Rightarrow>
               if name = ''version'' then version_listener rt w
               else if name = ''*''
                 then (let w1 = commandNotFound rt (JArr (map JStr rest)) w
                       in if rest = [] then cli_help rt w1 else w1)
               else commandNotFound rt (JArr (map JStr operands)) w))"

section \<open>The error document of the responder\<close>

text \<open>
  The pattern \<open>/\[public\]/gi\<close>. Without the \<open>u\<close> flag, ignoring case compares the
  upper-case forms of two characters, and a character outside ASCII never equals an
  ASCII one.
\<close>

definition canonicalize :: "char \<Rightarrow> char" where
  "canonicalize c =
     (let n = (of_char c :: nat) in if 97 \<le> n \<and> n \<le> 122 then char_of (n - 32) else c)"

definition public_marker :: string where
  "public_marker = ''[public]''"

fun matches_here :: "string \<Rightarrow> string \<Rightarrow> bool" where
  "matches_here [] s = True"
| "matches_here (p # ps) [] = False"
| "matches_here (p # ps) (c # cs) = (canonicalize c = canonicalize p \<and> matches_here ps cs)"

text \<open>\<open>/\[public\]/gi.test(s)\<close>, on a pattern object made for this one call.\<close>

fun test_public :: "string \<Rightarrow> bool" where
  "test_public [] = False"
| "test_public (c # cs) = (matches_here public_marker (c # cs) \<or> test_public cs)"

text \<open>
  \<open>s.replace(/\[public\]/gi, '')\<close>: from left to right, a match is dropped and the
  search goes on behind it; a character where no match starts is kept.
\<close>

function replace_public :: "string \<Rightarrow> string" where
  "replace_public [] = []"
| "replace_public (c # cs) =
     (if matches_here public_marker (c # cs) then replace_public (drop 7 cs)
      else c # replace_public cs)"
  by pat_completeness auto
termination
  by (relation "measure length") auto

text \<open>\<open>n.toString()\<close> of an integer.\<close>

definition digit_char :: "nat \<Rightarrow> char" where
  "digit_char d = char_of (48 + d)"

fun decimal :: "nat \<Rightarrow> string" where
  "decimal n = (if n < 10 then [digit_char n] else decimal (n div 10) @ [digit_char (n mod 10)])"

definition number_toString :: "int \<Rightarrow> string" where
  "number_toString i = (if i < 0 then CHR ''-'' # decimal (nat (- i)) else decimal (nat i))"

record error_object =
  status :: string
  title :: "string option"
  detail :: "string option"

datatype document = EmptyString | Document "error_object list" string

text \<open>
  \<open>dataFor\<close> takes three things from its imports: the table \<open>STATUS_CODES\<close>, the
  constant \<open>VERSION\<close> and the answer of \<open>env.isDevelopment()\<close>.
\<close>

definition dataFor :: "(int \<rightharpoonup> string) \<Rightarrow> string \<Rightarrow> bool \<Rightarrow> int \<Rightarrow> jserror option \<Rightarrow> document" where
  "dataFor STATUS_CODES VERSION isDevelopment st err =
     (if st < 400 \<or> st > 599 then EmptyString
      else
        (let errData0 = \<lparr>status = number_toString st, title = None, detail = None\<rparr>;
             errData1 =
               (case STATUS_CODES st of
                  None \<Rightarrow> errData0
                | Some t \<Rightarrow> if t \<noteq> [] then errData0\<lparr>title := Some t\<rparr> else errData0);
             errData2 =
               (case err of
                  None \<Rightarrow> errData1
                | Some e \<Rightarrow>
                    if isDevelopment \<or> test_public (message e)
                    then errData1\<lparr>detail := Some (replace_public (message e))\<rparr>
                    else errData1)
         in Document [errData2] VERSION))"

section \<open>Traces and pipelines\<close>

text \<open>
  Readings of a trace: the steps started, the handlers called, the codes the process
  was ended with, the texts printed on the error stream.
\<close>

fun invoked :: "event list \<Rightarrow> string list" where
  "invoked [] = []"
| "invoked (Invoke c a # tr) = c # invoked tr"
| "invoked (ev # tr) = invoked tr"

fun handled :: "event list \<Rightarrow> string list" where
  "handled [] = []"
| "handled (Handler c a # tr) = c # handled tr"
| "handled (ev # tr) = handled tr"

fun exits :: "event list \<Rightarrow> jsval list" where
  "exits [] = []"
| "exits (ProcessExit c # tr) = c # exits tr"
| "exits (ev # tr) = exits tr"

fun printed_errors :: "event list \<Rightarrow> string list" where
  "printed_errors [] = []"
| "printed_errors (ConsoleError c # tr) = c # printed_errors tr"
| "printed_errors (ev # tr) = printed_errors tr"

text \<open>The events a run added to the trace.\<close>

definition trace_from :: "'s world \<Rightarrow> 's world \<Rightarrow> event list" where
  "trace_from w w' = drop (length (events w)) (events w')"

text \<open>
  The pipeline shapes of the specification: the optional build step, and for every
  registered name the steps of its command with their arguments.
\<close>

definition build_gate :: "options \<Rightarrow> (string \<times> jsval list) list" where
  "build_gate opts =
     (if truthy (skipBuild opts) then [] else [(''build'', [js_not (useWeak opts)])])"

definition steps_of :: "string \<Rightarrow> jsval list \<Rightarrow> options \<Rightarrow> (string \<times> jsval list) list" where
  "steps_of name args opts =
     (if name \<in> set [''n'', ''new''] then [(''create'', [arg args 0, database opts])]
      else if name \<in> set [''t'', ''test''] then [(''test'', [])]
      else if name \<in> set [''b'', ''build''] then [(''build'', [js_not (useWeak opts)])]
      else if name \<in> set [''c'', ''console''] then build_gate opts @ [(''repl'', [])]
      else if name \<in> set [''s'', ''serve'']
        then build_gate opts @
             [(''serve'', [JObj [(''hot'', hot opts), (''cluster'', cluster opts),
                                 (''useStrict'', js_not (useWeak opts))]])]
      else if name \<in> set [''g'', ''generate'']
        then [(''generate'',
               [JObj [(''type'', arg args 0), (''name'', arg args 1), (''attrs'', arg args 2)]])]
      else if name \<in> set [''d'', ''destroy <type> <name>'']
        then [(''destroy'', [JObj [(''type'', arg args 0), (''name'', arg args 1)]])]
      else if name = ''db:create'' then build_gate opts @ [(''dbcreate'', [])]
      else if name = ''db:drop'' then build_gate opts @ [(''dbdrop'', [])]
      else if name = ''db:reset'' then build_gate opts @ [(''dbdrop'', []), (''dbcreate'', [])]
      else if name = ''db:migrate'' then build_gate opts @ [(''dbmigrate'', [])]
      else if name = ''db:rollback'' then build_gate opts @ [(''dbrollback'', [])]
      else if name = ''db:seed'' then build_gate opts @ [(''dbseed'', [])]
      else [])"

text \<open>
  How an action ends its chain: \<open>.then(exit).catch(rescue)\<close>, or for \<open>serve\<close>
  \<open>.catch(rescue)\<close> alone, and the events that adds for a pipeline settled as \<open>r\<close>.
\<close>

definition exits_on_success :: "string \<Rightarrow> bool" where
  "exits_on_success name = (name \<notin> set [''s'', ''serve''])"

definition finish_events :: "bool \<Rightarrow> settled \<Rightarrow> event list" where
  "finish_events ex r =
     (case r of
        Resolved v \<Rightarrow> if ex then [ProcessExit (if is_number v then v else JNum 0)] else []
      | Rejected e \<Rightarrow> [ConsoleError (stack e), ProcessExit (JNum 1)]
      | Never \<Rightarrow> [])"

definition finish :: "bool \<Rightarrow> 's promise \<Rightarrow> 's promise" where
  "finish ex p = (if ex then catch_p (then_p p exit) rescue else catch_p p rescue)"

text \<open>A promise that resolved.\<close>

fun is_resolved :: "settled \<Rightarrow> bool" where
  "is_resolved (Resolved v) = True"
| "is_resolved r = False"

text \<open>A step sequence run through the gateway, each step after the one before resolved.\<close>

fun pipeline :: "'s runtime \<Rightarrow> (string \<times> jsval list) list \<Rightarrow> 's promise" where
  "pipeline rt [] = Promise_resolve Undefined"
| "pipeline rt [(c, a)] = exec rt c a"
| "pipeline rt ((c, a) # s # rest) = then_p (exec rt c a) (\<lambda>_. pipeline rt (s # rest))"

text \<open>
  The events of one step that settles as \<open>r\<close>: rejected by the gateway, or handed to
  the handler. The traces of a step sequence: it stops at the first step that does not
  resolve.
\<close>

definition step_events :: "'s runtime \<Rightarrow> string \<Rightarrow> jsval list \<Rightarrow> settled \<Rightarrow> event list \<Rightarrow> bool" where
  "step_events rt c a r st =
     ((needsProject c \<and> r = Rejected (new_Error rt project_error_message) \<and>
       st = [Invoke c a, Settle c r])
      \<or> st = [Invoke c a, Handler c a, Settle c r])"

inductive pipeline_trace :: "'s runtime \<Rightarrow> (string \<times> jsval list) list \<Rightarrow> settled \<Rightarrow> event list \<Rightarrow> bool"
  for rt :: "'s runtime" where
  empty: "pipeline_trace rt [] (Resolved Undefined) []"
| stop: "step_events rt c a r st \<Longrightarrow> \<not> is_resolved r \<Longrightarrow> pipeline_trace rt ((c, a) # rest) r st"
| last: "step_events rt c a (Resolved v) st \<Longrightarrow> pipeline_trace rt [(c, a)] (Resolved v) st"
| more: "step_events rt c a (Resolved v) st \<Longrightarrow> rest \<noteq> [] \<Longrightarrow> pipeline_trace rt rest r tr \<Longrightarrow>
         pipeline_trace rt ((c, a) # rest) r (st @ tr)"

text \<open>
  What an action does before its first step touches three variables of the environment
  at most, and nothing else.
\<close>

definition prepared :: "'s world \<Rightarrow> 's world \<Rightarrow> bool" where
  "prepared w w1 =
     (events w1 = events w \<and> cwd w1 = cwd w \<and> ext w1 = ext w \<and>
      (\<forall>k. k \<notin> set [''NODE_ENV'', ''PORT'', ''LUX_CONSOLE''] \<longrightarrow> env w1 k = env w k))"

section \<open>Notions of the specification\<close>

text \<open>
  A manifest declares the framework dependency when its \<open>dependencies\<close> object has an
  entry for \<open>lux-framework\<close>.
\<close>

definition declares_framework :: "jsval \<Rightarrow> bool" where
  "declares_framework manifest =
     (case manifest of
        JObj kvs \<Rightarrow>
          (case map_of kvs ''dependencies'' of
             Some (JObj deps) \<Rightarrow> map_of deps ''lux-framework'' \<noteq> None
           | _ \<Rightarrow> False)
      | _ \<Rightarrow> False)"

text \<open>The entry is there and its value is truthy (a version range that is not empty).\<close>

definition declares_framework_version :: "jsval \<Rightarrow> bool" where
  "declares_framework_version manifest =
     (case manifest of
        JObj kvs \<Rightarrow>
          (case map_of kvs ''dependencies'' of
             Some (JObj deps) \<Rightarrow>
               (case map_of deps ''lux-framework'' of Some v \<Rightarrow> truthy v | None \<Rightarrow> False)
           | _ \<Rightarrow> False)
      | _ \<Rightarrow> False)"

text \<open>The commands that take \<open>--skip-build\<close>, under each of their names.\<close>

definition skip_build_commands :: "string list" where
  "skip_build_commands =
     [''c'', ''console'', ''s'', ''serve'', ''db:create'', ''db:drop'', ''db:reset'',
      ''db:migrate'', ''db:rollback'', ''db:seed'']"

text \<open>The commands that take \<open>--use-weak\<close>, under each of their names.\<close>

definition use_weak_commands :: "string list" where
  "use_weak_commands =
     [''b'', ''build'', ''c'', ''console'', ''s'', ''serve'', ''db:create'', ''db:drop'',
      ''db:reset'', ''db:migrate'', ''db:rollback'', ''db:seed'']"

text \<open>The handlers that act on the database, and the calls of them in a trace.\<close>

definition database_handlers :: "string list" where
  "database_handlers = [''dbcreate'', ''dbdrop'', ''dbmigrate'', ''dbrollback'', ''dbseed'']"

definition database_actions :: "event list \<Rightarrow> string list" where
  "database_actions tr = filter (\<lambda>c. c \<in> set database_handlers) (handled tr)"

text \<open>
  The marker occurs in \<open>s\<close> at position \<open>i\<close> when the characters from \<open>i\<close> on spell
  \<open>[public]\<close>, in upper or lower case.
\<close>

definition occurs_at :: "string \<Rightarrow> nat \<Rightarrow> bool" where
  "occurs_at s i =
     (map canonicalize (take (length public_marker) (drop i s)) = map canonicalize public_marker)"

text \<open>
  A message with every occurrence of the marker removed: a message without an
  occurrence is left as it is; otherwise the first occurrence is cut out and the rest
  of the message behind it is treated the same way.
\<close>

inductive marker_removed :: "string \<Rightarrow> string \<Rightarrow> bool" where
  clean: "(\<forall>i. \<not> occurs_at s i) \<Longrightarrow> marker_removed s s"
| cut: "occurs_at s i \<Longrightarrow> (\<forall>j<i. \<not> occurs_at s j) \<Longrightarrow>
        marker_removed (drop (i + length public_marker) s) out \<Longrightarrow>
        marker_removed s (take i s @ out)"

section \<open>Sample inputs\<close>

definition app_manifest :: jsval where
  "app_manifest =
     JObj [(''name'', JStr ''app''),
           (''dependencies'', JObj [(''lux-framework'', JStr ''^1.0.0'')])]"

text \<open>For npm, the empty version range is the range \<open>*\<close>.\<close>

definition unpinned_manifest :: jsval where
  "unpinned_manifest =
     JObj [(''name'', JStr ''app''),
           (''dependencies'', JObj [(''lux-framework'', JStr [])])]"

text \<open>The keys of \<open>Object.prototype\<close>, and the text of an array of strings.\<close>

definition object_prototype_keys :: "string list" where
  "object_prototype_keys =
     [''constructor'', ''hasOwnProperty'', ''isPrototypeOf'', ''propertyIsEnumerable'',
      ''toLocaleString'', ''toString'', ''valueOf'', ''__defineGetter__'', ''__defineSetter__'',
      ''__lookupGetter__'', ''__lookupSetter__'', ''__proto__'']"

fun strings_of :: "jsval list \<Rightarrow> string list" where
  "strings_of [] = []"
| "strings_of (JStr s # vs) = s # strings_of vs"
| "strings_of (v # vs) = strings_of vs"

fun join_commas :: "string list \<Rightarrow> string" where
  "join_commas [] = []"
| "join_commas [s] = s"
| "join_commas (s # t # ts) = s @ '','' @ join_commas (t # ts)"

definition operands_text :: "jsval \<Rightarrow> string" where
  "operands_text v = (case v of JArr vs \<Rightarrow> join_commas (strings_of vs) | JStr s \<Rightarrow> s | _ \<Rightarrow> [])"

text \<open>
  A POSIX machine with one project, in \<open>/srv/app\<close>; every handler settles the way
  \<open>outcome\<close> says for its name. \<open>red\<close> leaves the text of an array of strings as
  it is, the strings joined by commas; \<open>process.env\<close> inherits the keys of
  \<open>Object.prototype\<close>.
\<close>

definition sample_runtime :: "jsval \<Rightarrow> (string \<Rightarrow> settled) \<Rightarrow> unit runtime" where
  "sample_runtime manifest outcome =
     \<lparr>EOL = [CHR 0x0A], path_sep = ''/'', red = operands_text, green = (\<lambda>s. s),
      package_version = ''1.0.0'', help_text = ''Usage: lux [options] [command]'',
      require_json =
        (\<lambda>x p. if p = ''/srv/app/package.json'' then Inr manifest else Inl ModuleNotFound),
      handlers = (\<lambda>cmd args dir e x. (outcome cmd, x)),
      error_stack = (\<lambda>msg. ''Error: '' @ msg)\<rparr>"

definition sample_world :: "string \<Rightarrow> unit world" where
  "sample_world dir =
     \<lparr>cwd = dir, env = Map.empty, inherited = object_prototype_keys, ext = (), events = []\<rparr>"

text \<open>Ways the handlers may settle, by the name of the handler.\<close>

definition all_resolve :: "string \<Rightarrow> settled" where
  "all_resolve cmd = Resolved Undefined"

definition build_fails :: "string \<Rightarrow> settled" where
  "build_fails cmd =
     (if cmd = ''build''
      then Rejected \<lparr>message = ''build failed'', stack = ''Error: build failed''\<rparr>
      else Resolved Undefined)"

definition drop_fails :: "string \<Rightarrow> settled" where
  "drop_fails cmd =
     (if cmd = ''dbdrop''
      then Rejected \<lparr>message = ''no such database'', stack = ''Error: no such database''\<rparr>
      else Resolved Undefined)"

definition tests_fail :: "string \<Rightarrow> settled" where
  "tests_fail cmd = Resolved (JNum 2)"

text \<open>The imports of \<open>dataFor\<close>, and an error with a message.\<close>

definition sample_status_codes :: "int \<rightharpoonup> string" where
  "sample_status_codes = [404 \<mapsto> ''Not Found'', 422 \<mapsto> ''Unprocessable Entity'',
                          500 \<mapsto> ''Internal Server Error'']"

definition sample_error :: "string \<Rightarrow> jserror" where
  "sample_error msg = \<lparr>message = msg, stack = ''Error: '' @ msg\<rparr>"

text \<open>
  A command line with no option, the options of \<open>--port 5000 --use-weak\<close> (the port
  is the text \<open>5000\<close> put through the coercion of the option), and those of
  \<open>--skip-build\<close>.
\<close>

definition no_options :: options where
  "no_options =
     \<lparr>environment = Undefined, useWeak = Undefined, skipBuild = Undefined, hot = Undefined,
      port = Undefined, cluster = Undefined, database = Undefined\<rparr>"

definition port_weak_options :: "(int \<Rightarrow> jsval) \<Rightarrow> options" where
  "port_weak_options big = no_options\<lparr>port := parseInt10 big ''5000'', useWeak := JBool True\<rparr>"

definition skip_build_options :: options where
  "skip_build_options = no_options\<lparr>skipBuild := JBool True\<rparr>"

section \<open>The environment resolver\<close>

text \<open>
  C3, as the specification states it, has \<open>setEnvVar\<close> return the value it resolves, and
  set the default whenever no value is given and the variable is not set. The function
  returns nothing: with the override \<open>production\<close> its value is \<open>undefined\<close>, not
  \<open>production\<close>. And it asks \<open>Reflect.has\<close>, which also finds the keys that
  \<open>process.env\<close> inherits: for the key \<open>toString\<close>, with no value given and no such
  variable set, it does not set the default.
\<close>

theorem setEnvVar_returns_value_counterexample:
  "fst (setEnvVar ''NODE_ENV'' (JStr ''production'') (JStr ''development'') (sample_world ''/srv/app''))
     \<noteq> JStr ''production'' \<and>
   truthy Undefined = False \<and>
   env (sample_world ''/srv/app'') ''toString'' = None \<and>
   env (snd (setEnvVar ''toString'' Undefined (JStr ''development'') (sample_world ''/srv/app'')))
     ''toString'' = None"
  by (simp add: setEnvVar_def env_has_def sample_world_def object_prototype_keys_def)

text \<open>
  C3, amended: \<open>setEnvVar\<close> returns \<open>undefined\<close> on every path. A truthy explicit value
  becomes the value of the variable; otherwise, when \<open>Reflect.has\<close> finds the key (the
  variable is set, or the key is one that \<open>process.env\<close> inherits), the whole process
  state is left as it is; otherwise the variable gets the default. No other variable
  changes, and nothing but the environment does.
\<close>

theorem setEnvVar_effect:
  "fst (setEnvVar key val def w) = Undefined \<and>
   (truthy val \<longrightarrow> env (snd (setEnvVar key val def w)) key = Some val) \<and>
   (\<not> truthy val \<and> (key \<in> dom (env w) \<or> key \<in> set (inherited w)) \<longrightarrow>
      snd (setEnvVar key val def w) = w) \<and>
   (\<not> truthy val \<and> key \<notin> dom (env w) \<and> key \<notin> set (inherited w) \<longrightarrow>
      env (snd (setEnvVar key val def w)) key = Some def) \<and>
   (\<forall>k. k \<noteq> key \<longrightarrow> env (snd (setEnvVar key val def w)) k = env w k) \<and>
   cwd (snd (setEnvVar key val def w)) = cwd w \<and>
   inherited (snd (setEnvVar key val def w)) = inherited w \<and>
   ext (snd (setEnvVar key val def w)) = ext w \<and>
   events (snd (setEnvVar key val def w)) = events w"
  by (simp add: setEnvVar_def env_has_def)

theorem setEnvVar_effect_witness:
  "truthy (JStr ''production'') \<and>
   env (snd (setEnvVar ''NODE_ENV'' (JStr ''production'') (JStr ''development'') (sample_world ''/srv/app''))) ''NODE_ENV''
     = Some (JStr ''production'') \<and>
   \<not> truthy Undefined \<and> ''NODE_ENV'' \<notin> dom (env (sample_world ''/srv/app'')) \<and>
   ''NODE_ENV'' \<notin> set (inherited (sample_world ''/srv/app'')) \<and>
   env (snd (setEnvVar ''NODE_ENV'' Undefined (JStr ''development'') (sample_world ''/srv/app''))) ''NODE_ENV''
     = Some (JStr ''development'') \<and>
   ''NODE_ENV'' \<in> dom (env ((sample_world ''/srv/app'')\<lparr>env := [''NODE_ENV'' \<mapsto> JStr ''test'']\<rparr>)) \<and>
   snd (setEnvVar ''NODE_ENV'' Undefined (JStr ''development'')
         ((sample_world ''/srv/app'')\<lparr>env := [''NODE_ENV'' \<mapsto> JStr ''test'']\<rparr>))
     = (sample_world ''/srv/app'')\<lparr>env := [''NODE_ENV'' \<mapsto> JStr ''test'']\<rparr> \<and>
   ''toString'' \<in> set (inherited (sample_world ''/srv/app'')) \<and>
   snd (setEnvVar ''toString'' Undefined (JStr ''development'') (sample_world ''/srv/app''))
     = sample_world ''/srv/app''"
proof -
  let ?w = "sample_world ''/srv/app''"
  let ?t = "?w\<lparr>env := [''NODE_ENV'' \<mapsto> JStr ''test'']\<rparr>"
  have a: "truthy (JStr ''production'')" by simp
  have b: "\<not> truthy Undefined" by simp
  have c: "''NODE_ENV'' \<notin> dom (env ?w)" by (simp add: sample_world_def)
  have d: "''NODE_ENV'' \<notin> set (inherited ?w)"
    by (simp add: sample_world_def object_prototype_keys_def)
  have e: "''NODE_ENV'' \<in> dom (env ?t)" by simp
  have f: "''toString'' \<in> set (inherited ?w)"
    by (simp add: sample_world_def object_prototype_keys_def)
  from setEnvVar_effect [of "''NODE_ENV''" "JStr ''production''" "JStr ''development''" ?w] a
  have g: "env (snd (setEnvVar ''NODE_ENV'' (JStr ''production'') (JStr ''development'') ?w)) ''NODE_ENV''
             = Some (JStr ''production'')"
    by blast
  from setEnvVar_effect [of "''NODE_ENV''" Undefined "JStr ''development''" ?w] b c d
  have h: "env (snd (setEnvVar ''NODE_ENV'' Undefined (JStr ''development'') ?w)) ''NODE_ENV''
             = Some (JStr ''development'')"
    by blast
  from setEnvVar_effect [of "''NODE_ENV''" Undefined "JStr ''development''" ?t] b e
  have i: "snd (setEnvVar ''NODE_ENV'' Undefined (JStr ''development'') ?t) = ?t"
    by blast
  from setEnvVar_effect [of "''toString''" Undefined "JStr ''development''" ?w] b f
  have j: "snd (setEnvVar ''toString'' Undefined (JStr ''development'') ?w) = ?w"
    by blast
  from a b c d e f g h i j show ?thesis by blast
qed

section \<open>The project validator\<close>

lemma indexOf_from_sublist: "(indexOf_from i s n \<ge> 0) = sublist n s"
  by (induction s arbitrary: i) (auto simp: sublist_Cons_right)

lemma indexOf_sublist: "(indexOf s n \<ge> 0) = sublist n s"
  by (simp add: indexOf_def indexOf_from_sublist)

lemma manifest_check_version:
  "require_json rt (ext w) (manifest_path rt w) = Inr m \<Longrightarrow>
   (case manifest_check rt w of Inl e \<Rightarrow> False | Inr b \<Rightarrow> b) = declares_framework_version m"
  apply (cases m)
  apply (auto simp: manifest_check_def declares_framework_version_def
              split: option.splits sum.splits jsval.splits)
  done

lemma manifest_check_throws:
  "require_json rt (ext w) (manifest_path rt w) = Inl e \<Longrightarrow> manifest_check rt w = Inl e"
  by (simp add: manifest_check_def)

text \<open>
  C6, as the specification states it, makes a directory without the fixture segment
  eligible exactly when its manifest declares the framework dependency. In \<open>/srv/app\<close>,
  a manifest that declares \<open>lux-framework\<close> with the empty version range is loaded
  without an error, and the validator answers false.
\<close>

theorem inLuxProject_declared_counterexample:
  "indexOf (cwd (sample_world ''/srv/app'')) (fixture_segment (sample_runtime unpinned_manifest all_resolve)) < 0 \<and>
   require_json (sample_runtime unpinned_manifest all_resolve) (ext (sample_world ''/srv/app''))
     (manifest_path (sample_runtime unpinned_manifest all_resolve) (sample_world ''/srv/app''))
     = Inr unpinned_manifest \<and>
   declares_framework unpinned_manifest \<and>
   \<not> inLuxProject (sample_runtime unpinned_manifest all_resolve) (sample_world ''/srv/app'')"
  by code_simp

text \<open>
  C6, amended: the validator answers true when the working directory contains the
  fixture segment. Otherwise it answers true exactly when the manifest is loaded and
  its \<open>dependencies\<close> object gives \<open>lux-framework\<close> a truthy value; a manifest that
  cannot be loaded, and every other exception of the check, gives false. The validator
  has an answer in every case.
\<close>

theorem inLuxProject_total:
  "(sublist (fixture_segment rt) (cwd w) \<longrightarrow> inLuxProject rt w) \<and>
   (\<not> sublist (fixture_segment rt) (cwd w) \<longrightarrow>
      inLuxProject rt w =
        (case require_json rt (ext w) (manifest_path rt w) of
           Inl e \<Rightarrow> False
         | Inr manifest \<Rightarrow> declares_framework_version manifest)) \<and>
   (\<not> sublist (fixture_segment rt) (cwd w) \<longrightarrow>
      (\<forall>e. manifest_check rt w = Inl e \<longrightarrow> \<not> inLuxProject rt w))"
  by (auto simp: inLuxProject_def indexOf_sublist manifest_check_version manifest_check_throws
           split: sum.splits)

theorem inLuxProject_total_witness:
  "sublist (fixture_segment (sample_runtime app_manifest all_resolve))
     (cwd (sample_world ''/home/dev/lux/test/test-app'')) \<and>
   inLuxProject (sample_runtime app_manifest all_resolve) (sample_world ''/home/dev/lux/test/test-app'') \<and>
   \<not> sublist (fixture_segment (sample_runtime app_manifest all_resolve)) (cwd (sample_world ''/srv/app'')) \<and>
   inLuxProject (sample_runtime app_manifest all_resolve) (sample_world ''/srv/app'') \<and>
   \<not> sublist (fixture_segment (sample_runtime app_manifest all_resolve)) (cwd (sample_world ''/tmp'')) \<and>
   manifest_check (sample_runtime app_manifest all_resolve) (sample_world ''/tmp'') = Inl ModuleNotFound \<and>
   \<not> inLuxProject (sample_runtime app_manifest all_resolve) (sample_world ''/tmp'')"
proof -
  let ?rt = "sample_runtime app_manifest all_resolve"
  have a: "sublist (fixture_segment ?rt) (cwd (sample_world ''/home/dev/lux/test/test-app''))"
    unfolding indexOf_sublist [symmetric] by code_simp
  have b: "\<not> sublist (fixture_segment ?rt) (cwd (sample_world ''/srv/app''))"
    unfolding indexOf_sublist [symmetric] by code_simp
  have c: "\<not> sublist (fixture_segment ?rt) (cwd (sample_world ''/tmp''))"
    unfolding indexOf_sublist [symmetric] by code_simp
  have d: "require_json ?rt (ext (sample_world ''/srv/app'')) (manifest_path ?rt (sample_world ''/srv/app''))
             = Inr app_manifest"
    by code_simp
  have e: "declares_framework_version app_manifest" by code_simp
  have f: "manifest_check ?rt (sample_world ''/tmp'') = Inl ModuleNotFound" by code_simp
  from inLuxProject_total [of ?rt "sample_world ''/home/dev/lux/test/test-app''"] a
  have 1: "inLuxProject ?rt (sample_world ''/home/dev/lux/test/test-app'')" by blast
  from inLuxProject_total [of ?rt "sample_world ''/srv/app''"] b d e
  have 2: "inLuxProject ?rt (sample_world ''/srv/app'')" by simp
  from inLuxProject_total [of ?rt "sample_world ''/tmp''"] c f
  have 3: "\<not> inLuxProject ?rt (sample_world ''/tmp'')" by blast
  from a b c f 1 2 3 show ?thesis by blast
qed

section \<open>The gateway\<close>

text \<open>
  C5: for every command name that matches the project pattern, in a working directory
  the validator refuses, \<open>exec\<close> returns a rejected promise whose error carries the
  message about the directory; the handler is not called, and nothing of the process
  state changes but the trace.
\<close>

theorem exec_rejects_outside_project:
  "needsProject cmd \<Longrightarrow> \<not> inLuxProject rt w \<Longrightarrow>
   (\<exists>e w'. exec rt cmd args w = (Rejected e, w') \<and>
      message e = ''Directory does not contain a valid Lux application.'' \<and>
      trace_from w w' = [Invoke cmd args, Settle cmd (Rejected e)] \<and>
      handled (trace_from w w') = [] \<and>
      ext w' = ext w \<and> env w' = env w \<and> cwd w' = cwd w)"
  by (simp add: exec_def new_Error_def project_error_message_def Let_def trace_from_def)

theorem exec_rejects_outside_project_witness:
  "needsProject ''build'' \<and>
   \<not> inLuxProject (sample_runtime app_manifest all_resolve) (sample_world ''/tmp'') \<and>
   (\<exists>e w'. exec (sample_runtime app_manifest all_resolve) ''build'' [JBool True] (sample_world ''/tmp'')
              = (Rejected e, w') \<and>
      message e = ''Directory does not contain a valid Lux application.'' \<and>
      trace_from (sample_world ''/tmp'') w' = [Invoke ''build'' [JBool True], Settle ''build'' (Rejected e)] \<and>
      handled (trace_from (sample_world ''/tmp'') w') = [] \<and>
      ext w' = ext (sample_world ''/tmp'') \<and> env w' = env (sample_world ''/tmp'') \<and>
      cwd w' = cwd (sample_world ''/tmp''))"
proof -
  have a: "needsProject ''build''" by code_simp
  have b: "\<not> inLuxProject (sample_runtime app_manifest all_resolve) (sample_world ''/tmp'')"
    by code_simp
  from a b exec_rejects_outside_project [OF a b, of "[JBool True]"] show ?thesis by blast
qed

section \<open>Unknown commands\<close>




section \<open>Actions as pipelines\<close>

lemma exec_step:
  assumes "exec rt c a w = (r, w')"
  shows "\<exists>st. step_events rt c a r st \<and> events w' = events w @ st \<and> cwd w' = cwd w \<and> env w' = env w"
proof (cases "needsProject c \<and> \<not> inLuxProject rt w")
  case True
  let ?r = "Rejected (new_Error rt project_error_message)"
  from True have "exec rt c a w = (?r, w\<lparr>events := events w @ [Invoke c a, Settle c ?r]\<rparr>)"
    by (simp add: exec_def Let_def)
  from trans [OF assms [symmetric] this]
  have r: "r = ?r" and w': "w' = w\<lparr>events := events w @ [Invoke c a, Settle c ?r]\<rparr>"
    by blast+
  from True r have "step_events rt c a r [Invoke c a, Settle c r]"
    by (simp add: step_events_def)
  moreover from r w' have "events w' = events w @ [Invoke c a, Settle c r]" by simp
  moreover from w' have "cwd w' = cwd w" "env w' = env w" by simp_all
  ultimately show ?thesis by blast
next
  case False
  obtain r0 x where h: "handlers rt c a (cwd w) (env w) (ext w) = (r0, x)"
    by (cases "handlers rt c a (cwd w) (env w) (ext w)")
  from False h have
    "exec rt c a w = (r0, w\<lparr>ext := x, events := events w @ [Invoke c a, Handler c a, Settle c r0]\<rparr>)"
    by (auto simp: exec_def)
  from trans [OF assms [symmetric] this]
  have r: "r = r0"
    and w': "w' = w\<lparr>ext := x, events := events w @ [Invoke c a, Handler c a, Settle c r0]\<rparr>"
    by blast+
  have "step_events rt c a r [Invoke c a, Handler c a, Settle c r]"
    by (simp add: step_events_def)
  moreover from r w' have "events w' = events w @ [Invoke c a, Handler c a, Settle c r]" by simp
  moreover from w' have "cwd w' = cwd w" "env w' = env w" by simp_all
  ultimately show ?thesis by blast
qed

lemma then_p_cases:
  assumes "then_p p f w = (r, w'')"
  obtains (go) v w' where "p w = (Resolved v, w')" "f v w' = (r, w'')"
        | (halt) "p w = (r, w'')" "\<not> is_resolved r"
  using assms by (cases "p w") (auto simp: then_p_def split: settled.splits)

lemma pipeline_sound:
  "pipeline rt steps w = (r, w') \<Longrightarrow>
   \<exists>tr. pipeline_trace rt steps r tr \<and> events w' = events w @ tr \<and> cwd w' = cwd w \<and> env w' = env w"
proof (induction rt steps arbitrary: w r w' rule: pipeline.induct)
  case (1 rt)
  then show ?case by (auto simp: Promise_resolve_def intro: pipeline_trace.empty)
next
  case (2 rt c a)
  then have e: "exec rt c a w = (r, w')" by simp
  from exec_step [OF e] obtain st where
    st: "step_events rt c a r st" "events w' = events w @ st" "cwd w' = cwd w" "env w' = env w"
    by blast
  show ?case
  proof (cases r)
    case (Resolved v)
    with st show ?thesis by (blast intro: pipeline_trace.last)
  next
    case (Rejected e)
    with st show ?thesis by (auto intro!: exI [of _ st] pipeline_trace.stop)
  next
    case Never
    with st show ?thesis by (auto intro!: exI [of _ st] pipeline_trace.stop)
  qed
next
  case (3 rt c a s rest)
  from "3.prems" have t: "then_p (exec rt c a) (\<lambda>_. pipeline rt (s # rest)) w = (r, w')" by simp
  from t show ?case
  proof (cases rule: then_p_cases)
    case (go v w1)
    from exec_step [OF go(1)] obtain st where
      st: "step_events rt c a (Resolved v) st" "events w1 = events w @ st" "cwd w1 = cwd w" "env w1 = env w"
      by blast
    from "3.IH" [OF go(2)] obtain tr where
      tr: "pipeline_trace rt (s # rest) r tr" "events w' = events w1 @ tr" "cwd w' = cwd w1" "env w' = env w1"
      by blast
    have "pipeline_trace rt ((c, a) # s # rest) r (st @ tr)"
      using st(1) tr(1) by (auto intro: pipeline_trace.more)
    with st tr show ?thesis by auto
  next
    case halt
    from exec_step [OF halt(1)] obtain st where
      st: "step_events rt c a r st" "events w' = events w @ st" "cwd w' = cwd w" "env w' = env w"
      by blast
    with halt(2) show ?thesis by (auto intro!: exI [of _ st] pipeline_trace.stop)
  qed
qed

lemma finish_trace:
  assumes "p w = (r, w')"
  shows "events (snd (finish ex p w)) = events w' @ finish_events ex r \<and>
         cwd (snd (finish ex p w)) = cwd w' \<and> env (snd (finish ex p w)) = env w' \<and>
         ext (snd (finish ex p w)) = ext w'"
  using assms
  by (cases r) (simp_all add: finish_def finish_events_def catch_p_def then_p_def exit_def rescue_def)

lemma finish_pipeline:
  "\<exists>r tr. pipeline_trace rt steps r tr \<and>
     events (snd (finish ex (pipeline rt steps) w)) = events w @ tr @ finish_events ex r \<and>
     cwd (snd (finish ex (pipeline rt steps) w)) = cwd w \<and>
     env (snd (finish ex (pipeline rt steps) w)) = env w"
proof -
  obtain r w' where p: "pipeline rt steps w = (r, w')" by (cases "pipeline rt steps w")
  from pipeline_sound [OF p] obtain tr where
    tr: "pipeline_trace rt steps r tr" "events w' = events w @ tr" "cwd w' = cwd w" "env w' = env w"
    by blast
  from finish_trace [of "pipeline rt steps" w r w' ex] p tr show ?thesis by auto
qed

lemma then_p_resolve: "then_p (Promise_resolve v) f = f v"
  by (rule ext) (simp add: then_p_def Promise_resolve_def)

lemma then_p_assoc: "then_p (then_p p f) g = then_p p (\<lambda>v. then_p (f v) g)"
  by (rule ext) (simp add: then_p_def split: prod.splits settled.splits)

lemma gate_pipeline:
  "then_p (if truthy (skipBuild opts) then Promise_resolve Undefined
           else exec rt ''build'' [js_not (useWeak opts)])
          (\<lambda>_. pipeline rt (s # rest))
   = pipeline rt (build_gate opts @ s # rest)"
  by (cases s) (simp add: build_gate_def then_p_resolve)

lemma gate_exec:
  "then_p (if truthy (skipBuild opts) then Promise_resolve Undefined
           else exec rt ''build'' [js_not (useWeak opts)])
          (\<lambda>_. exec rt c a)
   = pipeline rt (build_gate opts @ [(c, a)])"
  using gate_pipeline [of opts rt "(c, a)" "[]"] by simp

lemma gate_exec2:
  "then_p (then_p (if truthy (skipBuild opts) then Promise_resolve Undefined
                   else exec rt ''build'' [js_not (useWeak opts)])
                  (\<lambda>_. exec rt c a))
          (\<lambda>_. exec rt c' a')
   = pipeline rt (build_gate opts @ [(c, a), (c', a')])"
  using gate_pipeline [of opts rt "(c, a)" "[(c', a')]"] by (simp add: then_p_assoc)

lemma setEnvVar_frame:
  "events (snd (setEnvVar key val def w)) = events w"
  "cwd (snd (setEnvVar key val def w)) = cwd w"
  "ext (snd (setEnvVar key val def w)) = ext w"
  "k \<noteq> key \<Longrightarrow> env (snd (setEnvVar key val def w)) k = env w k"
  by (simp_all add: setEnvVar_def)

lemma prepared_refl: "prepared w w"
  by (simp add: prepared_def)

lemma prepared_node_env:
  "prepared w (snd (setEnvVar ''NODE_ENV'' val def w))"
  by (simp add: prepared_def setEnvVar_frame)

lemma new_pipeline:
  "new_action rt args opts w =
     snd (finish True (pipeline rt [(''create'', [arg args 0, database opts])]) w)"
  by (simp add: new_action_def finish_def)

lemma test_pipeline:
  "test_action rt args opts w = snd (finish True (pipeline rt [(''test'', [])]) w)"
  by (simp add: test_action_def finish_def)

lemma build_pipeline:
  "build_action rt args opts w =
     snd (finish True (pipeline rt [(''build'', [js_not (useWeak opts)])])
           (snd (setEnvVar ''NODE_ENV'' (environment opts) (JStr ''development'') w)))"
  by (simp add: build_action_def finish_def Let_def)

lemma console_pipeline:
  "console_action rt args opts w =
     snd (finish True (pipeline rt (build_gate opts @ [(''repl'', [])]))
           ((snd (setEnvVar ''NODE_ENV'' (environment opts) (JStr ''development'') w))
              \<lparr>env := (env (snd (setEnvVar ''NODE_ENV'' (environment opts) (JStr ''development'') w)))
                        (''LUX_CONSOLE'' \<mapsto> JBool True)\<rparr>))"
  by (simp add: console_action_def finish_def Let_def gate_exec)

lemma serve_pipeline:
  "serve_action rt args opts w =
     snd (finish False
           (pipeline rt (build_gate opts @
              [(''serve'', [JObj [(''hot'', hot opts), (''cluster'', cluster opts),
                                  (''useStrict'', js_not (useWeak opts))]])]))
           (snd (setEnvVar ''NODE_ENV'' (environment opts) (JStr ''development'')
                  (snd (setEnvVar ''PORT'' (port opts) (JNum 4000) w)))))"
  by (simp add: serve_action_def finish_def Let_def gate_exec)

lemma generate_pipeline:
  "generate_action rt args opts w =
     snd (finish True
           (pipeline rt
             [(''generate'',
               [JObj [(''type'', arg args 0), (''name'', arg args 1), (''attrs'', arg args 2)]])]) w)"
  by (simp add: generate_action_def finish_def)

lemma destroy_pipeline:
  "destroy_action rt args opts w =
     snd (finish True
           (pipeline rt [(''destroy'', [JObj [(''type'', arg args 0), (''name'', arg args 1)]])]) w)"
  by (simp add: destroy_action_def finish_def)

lemma db_single_pipeline:
  "db_single_action target rt args opts w =
     snd (finish True (pipeline rt (build_gate opts @ [(target, [])]))
           (snd (setEnvVar ''NODE_ENV'' (environment opts) (JStr ''development'') w)))"
  by (simp add: db_single_action_def finish_def Let_def gate_exec)

lemma db_reset_pipeline:
  "db_reset_action rt args opts w =
     snd (finish True (pipeline rt (build_gate opts @ [(''dbdrop'', []), (''dbcreate'', [])]))
           (snd (setEnvVar ''NODE_ENV'' (environment opts) (JStr ''development'') w)))"
  by (simp add: db_reset_action_def finish_def Let_def gate_exec2)

lemma registry_cases:
  assumes "map_of (registry :: (string \<times> 's action) list) name = Some action"
  shows "(name \<in> set [''n'', ''new''] \<and> action = new_action) \<or>
         (name \<in> set [''t'', ''test''] \<and> action = test_action) \<or>
         (name \<in> set [''b'', ''build''] \<and> action = build_action) \<or>
         (name \<in> set [''c'', ''console''] \<and> action = console_action) \<or>
         (name \<in> set [''s'', ''serve''] \<and> action = serve_action) \<or>
         (name \<in> set [''g'', ''generate''] \<and> action = generate_action) \<or>
         (name \<in> set [''d'', ''destroy <type> <name>''] \<and> action = destroy_action) \<or>
         (name = ''db:create'' \<and> action = db_single_action ''dbcreate'') \<or>
         (name = ''db:drop'' \<and> action = db_single_action ''dbdrop'') \<or>
         (name = ''db:reset'' \<and> action = db_reset_action) \<or>
         (name = ''db:migrate'' \<and> action = db_single_action ''dbmigrate'') \<or>
         (name = ''db:rollback'' \<and> action = db_single_action ''dbrollback'') \<or>
         (name = ''db:seed'' \<and> action = db_single_action ''dbseed'')"
  using assms
  by (simp add: registry_def db_create_action_def db_drop_action_def db_migrate_action_def
        db_rollback_action_def db_seed_action_def split: if_splits)

lemma steps_of_simps:
  "steps_of ''n'' args opts = [(''create'', [arg args 0, database opts])]"
  "steps_of ''new'' args opts = [(''create'', [arg args 0, database opts])]"
  "steps_of ''t'' args opts = [(''test'', [])]"
  "steps_of ''test'' args opts = [(''test'', [])]"
  "steps_of ''b'' args opts = [(''build'', [js_not (useWeak opts)])]"
  "steps_of ''build'' args opts = [(''build'', [js_not (useWeak opts)])]"
  "steps_of ''c'' args opts = build_gate opts @ [(''repl'', [])]"
  "steps_of ''console'' args opts = build_gate opts @ [(''repl'', [])]"
  "steps_of ''s'' args opts = build_gate opts @
     [(''serve'', [JObj [(''hot'', hot opts), (''cluster'', cluster opts),
                         (''useStrict'', js_not (useWeak opts))]])]"
  "steps_of ''serve'' args opts = build_gate opts @
     [(''serve'', [JObj [(''hot'', hot opts), (''cluster'', cluster opts),
                         (''useStrict'', js_not (useWeak opts))]])]"
  "steps_of ''g'' args opts =
     [(''generate'', [JObj [(''type'', arg args 0), (''name'', arg args 1), (''attrs'', arg args 2)]])]"
  "steps_of ''generate'' args opts =
     [(''generate'', [JObj [(''type'', arg args 0), (''name'', arg args 1), (''attrs'', arg args 2)]])]"
  "steps_of ''d'' args opts = [(''destroy'', [JObj [(''type'', arg args 0), (''name'', arg args 1)]])]"
  "steps_of ''destroy <type> <name>'' args opts =
     [(''destroy'', [JObj [(''type'', arg args 0), (''name'', arg args 1)]])]"
  "steps_of ''db:create'' args opts = build_gate opts @ [(''dbcreate'', [])]"
  "steps_of ''db:drop'' args opts = build_gate opts @ [(''dbdrop'', [])]"
  "steps_of ''db:reset'' args opts = build_gate opts @ [(''dbdrop'', []), (''dbcreate'', [])]"
  "steps_of ''db:migrate'' args opts = build_gate opts @ [(''dbmigrate'', [])]"
  "steps_of ''db:rollback'' args opts = build_gate opts @ [(''dbrollback'', [])]"
  "steps_of ''db:seed'' args opts = build_gate opts @ [(''dbseed'', [])]"
  by (simp_all add: steps_of_def)

lemma exits_on_success_simps:
  "exits_on_success ''s'' = False" "exits_on_success ''serve'' = False"
  "exits_on_success ''n''" "exits_on_success ''new''" "exits_on_success ''t''"
  "exits_on_success ''test''" "exits_on_success ''b''" "exits_on_success ''build''"
  "exits_on_success ''c''" "exits_on_success ''console''" "exits_on_success ''g''"
  "exits_on_success ''generate''" "exits_on_success ''d''"
  "exits_on_success ''destroy <type> <name>''" "exits_on_success ''db:create''"
  "exits_on_success ''db:drop''" "exits_on_success ''db:reset''" "exits_on_success ''db:migrate''"
  "exits_on_success ''db:rollback''" "exits_on_success ''db:seed''"
  by (simp_all add: exits_on_success_def)

lemma prepared_console:
  "prepared w ((snd (setEnvVar ''NODE_ENV'' val def w))
      \<lparr>env := (env (snd (setEnvVar ''NODE_ENV'' val def w)))(''LUX_CONSOLE'' \<mapsto> JBool True)\<rparr>)"
  by (simp add: prepared_def setEnvVar_frame)

lemma prepared_serve:
  "prepared w (snd (setEnvVar ''NODE_ENV'' val def (snd (setEnvVar ''PORT'' p d w))))"
  by (simp add: prepared_def setEnvVar_frame)

lemma action_forms:
  "\<exists>w1. prepared w w1 \<and>
     new_action rt args opts w =
       snd (finish True (pipeline rt [(''create'', [arg args 0, database opts])]) w1)"
  "\<exists>w1. prepared w w1 \<and>
     test_action rt args opts w = snd (finish True (pipeline rt [(''test'', [])]) w1)"
  "\<exists>w1. prepared w w1 \<and>
     build_action rt args opts w =
       snd (finish True (pipeline rt [(''build'', [js_not (useWeak opts)])]) w1)"
  "\<exists>w1. prepared w w1 \<and>
     console_action rt args opts w =
       snd (finish True (pipeline rt (build_gate opts @ [(''repl'', [])])) w1)"
  "\<exists>w1. prepared w w1 \<and>
     serve_action rt args opts w =
       snd (finish False
             (pipeline rt (build_gate opts @
                [(''serve'', [JObj [(''hot'', hot opts), (''cluster'', cluster opts),
                                    (''useStrict'', js_not (useWeak opts))]])])) w1)"
  "\<exists>w1. prepared w w1 \<and>
     generate_action rt args opts w =
       snd (finish True
             (pipeline rt
               [(''generate'',
                 [JObj [(''type'', arg args 0), (''name'', arg args 1), (''attrs'', arg args 2)]])]) w1)"
  "\<exists>w1. prepared w w1 \<and>
     destroy_action rt args opts w =
       snd (finish True
             (pipeline rt [(''destroy'', [JObj [(''type'', arg args 0), (''name'', arg args 1)]])]) w1)"
  "\<exists>w1. prepared w w1 \<and>
     db_single_action target rt args opts w =
       snd (finish True (pipeline rt (build_gate opts @ [(target, [])])) w1)"
  "\<exists>w1. prepared w w1 \<and>
     db_reset_action rt args opts w =
       snd (finish True (pipeline rt (build_gate opts @ [(''dbdrop'', []), (''dbcreate'', [])])) w1)"
  using new_pipeline [of rt args opts w] test_pipeline [of rt args opts w]
    build_pipeline [of rt args opts w] console_pipeline [of rt args opts w]
    serve_pipeline [of rt args opts w] generate_pipeline [of rt args opts w]
    destroy_pipeline [of rt args opts w] db_single_pipeline [of target rt args opts w]
    db_reset_pipeline [of rt args opts w]
    prepared_refl [of w] prepared_node_env prepared_console prepared_serve
  by blast+

lemma registered_action_form:
  assumes "map_of (registry :: (string \<times> 's action) list) name = Some action"
  shows "\<exists>w1. prepared w w1 \<and>
           action rt args opts w =
             snd (finish (exits_on_success name) (pipeline rt (steps_of name args opts)) w1)"
  using registry_cases [OF assms]
  apply (elim disjE conjE)
  apply (simp_all only: set_simps insert_iff empty_iff)
  apply (elim disjE)
  apply (auto simp only: steps_of_simps exits_on_success_simps intro: action_forms)
  done

section \<open>Reading the trace of a pipeline\<close>

lemma invoked_append: "invoked (xs @ ys) = invoked xs @ invoked ys"
  by (induction xs rule: invoked.induct) simp_all

lemma handled_append: "handled (xs @ ys) = handled xs @ handled ys"
  by (induction xs rule: handled.induct) simp_all

lemma exits_append: "exits (xs @ ys) = exits xs @ exits ys"
  by (induction xs rule: exits.induct) simp_all

lemma printed_errors_append: "printed_errors (xs @ ys) = printed_errors xs @ printed_errors ys"
  by (induction xs rule: printed_errors.induct) simp_all

lemma step_events_readings:
  assumes "step_events rt c a r st"
  shows "invoked st = [c]" "exits st = []" "printed_errors st = []"
    "set (handled st) \<subseteq> {c}" "\<exists>pre. st = Invoke c a # pre @ [Settle c r]"
    "Settle c' q \<in> set st \<Longrightarrow> c' = c \<and> q = r"
    "Invoke c' a' \<in> set st \<Longrightarrow> c' = c \<and> a' = a"
    "Handler c' a' \<in> set st \<Longrightarrow> c' = c \<and> a' = a"
  using assms by (auto simp: step_events_def)

lemma step_events_gated:
  "step_events rt c a r st \<Longrightarrow> \<not> needsProject c \<Longrightarrow> st = [Invoke c a, Handler c a, Settle c r]"
  by (auto simp: step_events_def)

lemma pipeline_trace_quiet:
  "pipeline_trace rt steps r tr \<Longrightarrow> exits tr = [] \<and> printed_errors tr = []"
  by (induction rule: pipeline_trace.induct)
     (simp_all add: step_events_readings exits_append printed_errors_append)

lemma pipeline_trace_last:
  "pipeline_trace rt steps r tr \<Longrightarrow> steps \<noteq> [] \<Longrightarrow> \<exists>pre c. tr = pre @ [Settle c r]"
proof (induction rule: pipeline_trace.induct)
  case empty
  then show ?case by simp
next
  case (stop c a r st rest)
  from step_events_readings(5) [OF stop(1)] obtain pre where "st = Invoke c a # pre @ [Settle c r]" ..
  then have "st = (Invoke c a # pre) @ [Settle c r]" by simp
  then show ?case by blast
next
  case (last c a v st)
  from step_events_readings(5) [OF last(1)] obtain pre where "st = Invoke c a # pre @ [Settle c (Resolved v)]" ..
  then have "st = (Invoke c a # pre) @ [Settle c (Resolved v)]" by simp
  then show ?case by blast
next
  case (more c a v st rest r tr)
  then obtain pre c' where "tr = pre @ [Settle c' r]" by blast
  then have "st @ tr = (st @ pre) @ [Settle c' r]" by simp
  then show ?case by blast
qed

lemma pipeline_trace_unresolved:
  "pipeline_trace rt steps r tr \<Longrightarrow> Settle c q \<in> set tr \<Longrightarrow> \<not> is_resolved q \<Longrightarrow> q = r"
proof (induction rule: pipeline_trace.induct)
  case empty
  then show ?case by simp
next
  case (stop c0 a r st rest)
  with step_events_readings(6) [OF stop(1)] show ?case by blast
next
  case (last c0 a v st)
  with step_events_readings(6) [OF last(1)] show ?case by blast
next
  case (more c0 a v st rest r tr)
  from more.prems(1) have "Settle c q \<in> set st \<or> Settle c q \<in> set tr" by simp
  then show ?case
  proof
    assume "Settle c q \<in> set st"
    from step_events_readings(6) [OF more.hyps(1) this] more.prems(2) show ?thesis by simp
  next
    assume "Settle c q \<in> set tr"
    with more show ?thesis by blast
  qed
qed

lemma pipeline_trace_invoked:
  "pipeline_trace rt steps r tr \<Longrightarrow>
   prefix (invoked tr) (map fst steps) \<and> (is_resolved r \<longrightarrow> invoked tr = map fst steps)"
  by (induction rule: pipeline_trace.induct)
     (auto simp: step_events_readings invoked_append)

lemma pipeline_trace_steps:
  "pipeline_trace rt steps r tr \<Longrightarrow>
   (\<forall>c a. Invoke c a \<in> set tr \<longrightarrow> (c, a) \<in> set steps) \<and>
   (\<forall>c a. Handler c a \<in> set tr \<longrightarrow> (c, a) \<in> set steps) \<and>
   (\<forall>c q. Settle c q \<in> set tr \<longrightarrow> c \<in> fst ` set steps)"
proof (induction rule: pipeline_trace.induct)
  case empty
  then show ?case by simp
next
  case (stop c a r st rest)
  from step_events_readings(6,7,8) [OF stop(1)] show ?case by force
next
  case (last c a v st)
  from step_events_readings(6,7,8) [OF last(1)] show ?case by force
next
  case (more c a v st rest r tr)
  from step_events_readings(6,7,8) [OF more(1)] more.IH show ?case by force
qed

lemma registered_action_trace:
  assumes "map_of (registry :: (string \<times> 's action) list) name = Some action"
  shows "\<exists>r tr. pipeline_trace rt (steps_of name args opts) r tr \<and>
           trace_from w (action rt args opts w) = tr @ finish_events (exits_on_success name) r \<and>
           events (action rt args opts w) = events w @ trace_from w (action rt args opts w)"
proof -
  from registered_action_form [OF assms, of w rt args opts] obtain w1 where
    w1: "prepared w w1"
    and f: "action rt args opts w =
              snd (finish (exits_on_success name) (pipeline rt (steps_of name args opts)) w1)"
    by blast
  from finish_pipeline [of rt "steps_of name args opts" "exits_on_success name" w1]
  obtain r tr where tr: "pipeline_trace rt (steps_of name args opts) r tr"
    and ev: "events (snd (finish (exits_on_success name) (pipeline rt (steps_of name args opts)) w1))
               = events w1 @ tr @ finish_events (exits_on_success name) r"
    by blast
  from w1 have "events w1 = events w" by (simp add: prepared_def)
  with ev f have e: "events (action rt args opts w) = events w @ tr @ finish_events (exits_on_success name) r"
    by simp
  then have "trace_from w (action rt args opts w) = tr @ finish_events (exits_on_success name) r"
    by (simp add: trace_from_def)
  with tr e show ?thesis by auto
qed

lemma pipeline_trace_ConsE:
  assumes "pipeline_trace rt ((c, a) # rest) r tr"
  obtains (stop) "step_events rt c a r tr" "\<not> is_resolved r"
    | (last) v where "rest = []" "r = Resolved v" "step_events rt c a r tr"
    | (more) v st tr' where "rest \<noteq> []" "step_events rt c a (Resolved v) st"
        "pipeline_trace rt rest r tr'" "tr = st @ tr'"
  using assms by cases auto

lemma pipeline_trace_head:
  assumes "pipeline_trace rt ((c, a) # rest) r tr"
  shows "\<exists>tl. tr = Invoke c a # tl"
  using assms
proof (cases rule: pipeline_trace_ConsE)
  case stop
  from step_events_readings(5) [OF stop(1)] show ?thesis by blast
next
  case (last v)
  from step_events_readings(5) [OF last(3)] show ?thesis by blast
next
  case (more v st tr')
  from step_events_readings(5) [OF more(2)] more(4) show ?thesis by auto
qed

lemma handled_member: "c \<in> set (handled tr) \<Longrightarrow> \<exists>a. Handler c a \<in> set tr"
  by (induction tr rule: handled.induct) auto

lemma invoked_member: "c \<in> set (invoked tr) \<Longrightarrow> \<exists>a. Invoke c a \<in> set tr"
  by (induction tr rule: invoked.induct) auto

lemma finish_events_readings:
  "invoked (finish_events ex r) = []" "handled (finish_events ex r) = []"
  "Settle c q \<notin> set (finish_events ex r)" "Invoke c a \<notin> set (finish_events ex r)"
  "Handler c a \<notin> set (finish_events ex r)"
  by (cases r; simp add: finish_events_def)+

lemma step_name: "(c, a) \<in> set steps \<Longrightarrow> c \<in> fst ` set steps"
  by force

lemma gated_skip:
  assumes "pipeline_trace rt (build_gate opts @ targets) r tr"
    and "''build'' \<notin> fst ` set targets" and "truthy (skipBuild opts)"
  shows "''build'' \<notin> set (invoked tr) \<and> ''build'' \<notin> set (handled tr)"
proof -
  from assms have t: "pipeline_trace rt targets r tr" by (simp add: build_gate_def)
  have "''build'' \<notin> set (invoked tr)"
  proof
    assume "''build'' \<in> set (invoked tr)"
    then obtain a where "Invoke ''build'' a \<in> set tr" using invoked_member by blast
    with pipeline_trace_steps [OF t] have "(''build'', a) \<in> set targets" by blast
    from step_name [OF this] assms(2) show False by blast
  qed
  moreover have "''build'' \<notin> set (handled tr)"
  proof
    assume "''build'' \<in> set (handled tr)"
    then obtain a where "Handler ''build'' a \<in> set tr" using handled_member by blast
    with pipeline_trace_steps [OF t] have "(''build'', a) \<in> set targets" by blast
    from step_name [OF this] assms(2) show False by blast
  qed
  ultimately show ?thesis by blast
qed

lemma gated_build:
  assumes "pipeline_trace rt (build_gate opts @ targets) r tr"
    and "''build'' \<notin> fst ` set targets" and "targets \<noteq> []" and "\<not> truthy (skipBuild opts)"
  shows "\<exists>rest. tr = Invoke ''build'' [js_not (useWeak opts)] # rest"
    and "Settle ''build'' q \<in> set tr \<Longrightarrow> \<not> is_resolved q \<Longrightarrow> invoked tr = [''build'']"
    and "Settle ''build'' (Resolved v) \<in> set tr \<Longrightarrow>
           \<exists>c cs. invoked tr = ''build'' # c # cs \<and> c \<noteq> ''build''"
proof -
  from assms have t: "pipeline_trace rt ((''build'', [js_not (useWeak opts)]) # targets) r tr"
    by (simp add: build_gate_def)
  from pipeline_trace_head [OF t] show "\<exists>rest. tr = Invoke ''build'' [js_not (useWeak opts)] # rest" .
  {
    assume s: "Settle ''build'' q \<in> set tr" and q: "\<not> is_resolved q"
    from t show "invoked tr = [''build'']"
    proof (cases rule: pipeline_trace_ConsE)
      case stop
      from step_events_readings(1) [OF stop(1)] show ?thesis .
    next
      case (last v)
      with assms(3) show ?thesis by simp
    next
      case (more v st tr')
      from s more(4) have "Settle ''build'' q \<in> set st \<or> Settle ''build'' q \<in> set tr'" by simp
      then show ?thesis
      proof
        assume "Settle ''build'' q \<in> set st"
        from step_events_readings(6) [OF more(2) this] q show ?thesis by simp
      next
        assume "Settle ''build'' q \<in> set tr'"
        with pipeline_trace_steps [OF more(3)] have "''build'' \<in> fst ` set targets" by blast
        with assms(2) show ?thesis by blast
      qed
    qed
  }
  {
    assume s: "Settle ''build'' (Resolved v) \<in> set tr"
    from t show "\<exists>c cs. invoked tr = ''build'' # c # cs \<and> c \<noteq> ''build''"
    proof (cases rule: pipeline_trace_ConsE)
      case stop
      from step_events_readings(6) [OF stop(1) s] stop(2) show ?thesis by auto
    next
      case (last v)
      with assms(3) show ?thesis by simp
    next
      case (more v' st tr')
      from assms(3) obtain c a rest where tg: "targets = (c, a) # rest" by (cases targets) auto
      with assms(2) have c: "c \<noteq> ''build''" by auto
      from more(3) tg pipeline_trace_head [of rt c a rest r tr'] obtain tl where
        "tr' = Invoke c a # tl" by blast
      with more(4) step_events_readings(1) [OF more(2)] c show ?thesis
        by (simp add: invoked_append)
    qed
  }
qed

lemma gated_steps:
  "name \<in> set skip_build_commands \<Longrightarrow>
   \<exists>targets. steps_of name args opts = build_gate opts @ targets \<and> targets \<noteq> [] \<and>
     ''build'' \<notin> fst ` set targets"
  unfolding skip_build_commands_def
  apply (simp only: set_simps insert_iff empty_iff)
  apply (elim disjE)
  apply (simp_all only: steps_of_simps)
  apply ((rule exI, rule conjI, rule refl, simp)+)
  done

text \<open>
  C1: for every command that takes \<open>--skip-build\<close>: with the flag, no build step is
  started and no build handler called. Without it, the run starts with the build step,
  given the negation of \<open>--use-weak\<close>; when the build step does not resolve, no other
  step is started; when it resolves, the command's own step follows it.
\<close>

theorem build_step_gate:
  assumes "name \<in> set skip_build_commands"
    and "map_of (registry :: (string \<times> 's action) list) name = Some action"
  shows "(truthy (skipBuild opts) \<longrightarrow>
            ''build'' \<notin> set (invoked (trace_from w (action rt args opts w))) \<and>
            ''build'' \<notin> set (handled (trace_from w (action rt args opts w)))) \<and>
         (\<not> truthy (skipBuild opts) \<longrightarrow>
            (\<exists>rest. trace_from w (action rt args opts w)
                      = Invoke ''build'' [js_not (useWeak opts)] # rest) \<and>
            (\<forall>q. Settle ''build'' q \<in> set (trace_from w (action rt args opts w)) \<longrightarrow>
                  \<not> is_resolved q \<longrightarrow>
                  invoked (trace_from w (action rt args opts w)) = [''build'']) \<and>
            (\<forall>v. Settle ''build'' (Resolved v) \<in> set (trace_from w (action rt args opts w)) \<longrightarrow>
                  (\<exists>c cs. invoked (trace_from w (action rt args opts w)) = ''build'' # c # cs \<and>
                           c \<noteq> ''build'')))"
proof -
  from gated_steps [OF assms(1), of args opts] obtain targets where
    st: "steps_of name args opts = build_gate opts @ targets" and ne: "targets \<noteq> []"
    and nb: "''build'' \<notin> fst ` set targets"
    by blast
  from registered_action_trace [OF assms(2), of rt args opts w] st obtain r tr where
    tr: "pipeline_trace rt (build_gate opts @ targets) r tr"
    and t: "trace_from w (action rt args opts w) = tr @ finish_events (exits_on_success name) r"
    by auto
  note fin = finish_events_readings [where ex = "exits_on_success name" and r = r]
  show ?thesis
  proof (cases "truthy (skipBuild opts)")
    case True
    from gated_skip [OF tr nb True] t fin show ?thesis
      by (simp add: True invoked_append handled_append)
  next
    case False
    from gated_build(1) [OF tr nb ne False] obtain rest where
      r: "tr = Invoke ''build'' [js_not (useWeak opts)] # rest" by blast
    have a: "\<exists>rest. trace_from w (action rt args opts w)
                      = Invoke ''build'' [js_not (useWeak opts)] # rest"
      using t r by simp
    have b: "invoked (trace_from w (action rt args opts w)) = [''build'']"
      if "Settle ''build'' q \<in> set (trace_from w (action rt args opts w))" "\<not> is_resolved q" for q
    proof -
      from that(1) t fin(3) have "Settle ''build'' q \<in> set tr" by simp
      from gated_build(2) [OF tr nb ne False this that(2)] t fin(1) show ?thesis
        by (simp add: invoked_append)
    qed
    have c: "\<exists>c cs. invoked (trace_from w (action rt args opts w)) = ''build'' # c # cs \<and>
                     c \<noteq> ''build''"
      if "Settle ''build'' (Resolved v) \<in> set (trace_from w (action rt args opts w))" for v
    proof -
      from that t fin(3) have "Settle ''build'' (Resolved v) \<in> set tr" by simp
      from gated_build(3) [OF tr nb ne False this] t fin(1) show ?thesis
        by (simp add: invoked_append)
    qed
    from False a b c show ?thesis by blast
  qed
qed

theorem build_step_gate_witness:
  "''db:migrate'' \<in> set skip_build_commands \<and>
   map_of (registry :: (string \<times> unit action) list) ''db:migrate'' = Some db_migrate_action \<and>
   truthy (skipBuild skip_build_options) \<and>
   ''build'' \<notin> set (invoked (trace_from (sample_world ''/srv/app'')
        (db_migrate_action (sample_runtime app_manifest all_resolve) [] skip_build_options
           (sample_world ''/srv/app'')))) \<and>
   \<not> truthy (skipBuild no_options) \<and>
   Settle ''build'' (build_fails ''build'') \<in> set (trace_from (sample_world ''/srv/app'')
        (db_migrate_action (sample_runtime app_manifest build_fails) [] no_options
           (sample_world ''/srv/app''))) \<and>
   \<not> is_resolved (build_fails ''build'') \<and>
   invoked (trace_from (sample_world ''/srv/app'')
        (db_migrate_action (sample_runtime app_manifest build_fails) [] no_options
           (sample_world ''/srv/app''))) = [''build'']"
proof -
  have a: "''db:migrate'' \<in> set skip_build_commands" by (simp add: skip_build_commands_def)
  have b: "map_of (registry :: (string \<times> unit action) list) ''db:migrate'' = Some db_migrate_action"
    by (simp add: registry_def)
  have c: "truthy (skipBuild skip_build_options)" by (simp add: skip_build_options_def no_options_def)
  have d: "\<not> truthy (skipBuild no_options)" by (simp add: no_options_def)
  have e: "Settle ''build'' (build_fails ''build'') \<in> set (trace_from (sample_world ''/srv/app'')
        (db_migrate_action (sample_runtime app_manifest build_fails) [] no_options
           (sample_world ''/srv/app'')))"
    by code_simp
  have f: "\<not> is_resolved (build_fails ''build'')" by (simp add: build_fails_def)
  from build_step_gate [OF a b, of skip_build_options "sample_world ''/srv/app''"
      "sample_runtime app_manifest all_resolve" "[]"] c
  have g: "''build'' \<notin> set (invoked (trace_from (sample_world ''/srv/app'')
        (db_migrate_action (sample_runtime app_manifest all_resolve) [] skip_build_options
           (sample_world ''/srv/app''))))"
    by blast
  from build_step_gate [OF a b, of no_options "sample_world ''/srv/app''"
      "sample_runtime app_manifest build_fails" "[]"] d e f
  have h: "invoked (trace_from (sample_world ''/srv/app'')
        (db_migrate_action (sample_runtime app_manifest build_fails) [] no_options
           (sample_world ''/srv/app''))) = [''build'']"
    by blast
  from a b c d e f g h show ?thesis by blast
qed

section \<open>The order of db:reset and the end of a run\<close>

lemma database_actions_append:
  "database_actions (xs @ ys) = database_actions xs @ database_actions ys"
  by (simp add: database_actions_def handled_append)

lemma database_handlers_open:
  "\<not> needsProject ''dbdrop''" "\<not> needsProject ''dbcreate''"
  by code_simp+

lemma single_step_trace:
  assumes "pipeline_trace rt [(c, a)] r tr"
  shows "step_events rt c a r tr"
  using assms by (cases rule: pipeline_trace_ConsE) simp_all

lemma reset_steps_traces:
  assumes "pipeline_trace rt [(''dbdrop'', []), (''dbcreate'', [])] r tr"
  shows "(\<not> is_resolved r \<and> tr = [Invoke ''dbdrop'' [], Handler ''dbdrop'' [], Settle ''dbdrop'' r]) \<or>
         (\<exists>v. tr = [Invoke ''dbdrop'' [], Handler ''dbdrop'' [], Settle ''dbdrop'' (Resolved v),
                     Invoke ''dbcreate'' [], Handler ''dbcreate'' [], Settle ''dbcreate'' r])"
  using assms
proof (cases rule: pipeline_trace_ConsE)
  case stop
  from step_events_gated [OF stop(1) database_handlers_open(1)] stop(2) show ?thesis by simp
next
  case (last v)
  then show ?thesis by simp
next
  case (more v st tr')
  from step_events_gated [OF more(2) database_handlers_open(1)]
  have st: "st = [Invoke ''dbdrop'' [], Handler ''dbdrop'' [], Settle ''dbdrop'' (Resolved v)]" .
  from step_events_gated [OF single_step_trace [OF more(3)] database_handlers_open(2)]
  have "tr' = [Invoke ''dbcreate'' [], Handler ''dbcreate'' [], Settle ''dbcreate'' r]" .
  with st more(4) show ?thesis by simp
qed

lemma build_step_readings:
  assumes "step_events rt ''build'' a r st"
  shows "database_actions st = []" "Settle ''dbdrop'' q \<notin> set st"
  using assms by (auto simp: step_events_def database_actions_def database_handlers_def)

lemma reset_shapes:
  assumes "pipeline_trace rt (build_gate opts @ [(''dbdrop'', []), (''dbcreate'', [])]) r tr"
  shows "\<exists>pre. database_actions pre = [] \<and> (\<forall>q. Settle ''dbdrop'' q \<notin> set pre) \<and>
           (\<forall>c q. Settle c q \<in> set pre \<longrightarrow> \<not> is_resolved q \<longrightarrow> q = r) \<and>
           ((\<not> is_resolved r \<and> tr = pre) \<or>
            (\<not> is_resolved r \<and>
               tr = pre @ [Invoke ''dbdrop'' [], Handler ''dbdrop'' [], Settle ''dbdrop'' r]) \<or>
            (\<exists>v. tr = pre @
               [Invoke ''dbdrop'' [], Handler ''dbdrop'' [], Settle ''dbdrop'' (Resolved v),
                Invoke ''dbcreate'' [], Handler ''dbcreate'' [], Settle ''dbcreate'' r]))"
proof (cases "truthy (skipBuild opts)")
  case True
  with assms have "pipeline_trace rt [(''dbdrop'', []), (''dbcreate'', [])] r tr"
    by (simp add: build_gate_def)
  from reset_steps_traces [OF this] show ?thesis
    by (intro exI [of _ "[]"]) (simp add: database_actions_def)
next
  case False
  with assms have
    t: "pipeline_trace rt ((''build'', [js_not (useWeak opts)]) # [(''dbdrop'', []), (''dbcreate'', [])]) r tr"
    by (simp add: build_gate_def)
  from t show ?thesis
  proof (cases rule: pipeline_trace_ConsE)
    case stop
    from build_step_readings [OF stop(1)] step_events_readings(6) [OF stop(1)] stop(2)
    show ?thesis by (intro exI [of _ tr]) blast
  next
    case (last v)
    then show ?thesis by simp
  next
    case (more v st tr')
    have "\<forall>c q. Settle c q \<in> set st \<longrightarrow> \<not> is_resolved q \<longrightarrow> q = r"
      using step_events_readings(6) [OF more(2)] by (metis is_resolved.simps(1))
    with build_step_readings [OF more(2)]
    have "database_actions st = [] \<and> (\<forall>q. Settle ''dbdrop'' q \<notin> set st) \<and>
          (\<forall>c q. Settle c q \<in> set st \<longrightarrow> \<not> is_resolved q \<longrightarrow> q = r)"
      by blast
    with reset_steps_traces [OF more(3)] more(4) show ?thesis
      by (intro exI [of _ st]) blast
  qed
qed

lemma reset_calls:
  "database_actions [Invoke ''dbdrop'' [], Handler ''dbdrop'' [], Settle ''dbdrop'' r] = [''dbdrop'']"
  "database_actions
     [Invoke ''dbdrop'' [], Handler ''dbdrop'' [], Settle ''dbdrop'' (Resolved v),
      Invoke ''dbcreate'' [], Handler ''dbcreate'' [], Settle ''dbcreate'' r]
   = [''dbdrop'', ''dbcreate'']"
  by (simp_all add: database_actions_def database_handlers_def)

lemma reset_order_core:
  assumes "pipeline_trace rt (build_gate opts @ [(''dbdrop'', []), (''dbcreate'', [])]) r tr"
  shows "prefix (database_actions tr) [''dbdrop'', ''dbcreate'']"
    and "(\<forall>c q. Settle c q \<in> set tr \<longrightarrow> is_resolved q) \<Longrightarrow>
           database_actions tr = [''dbdrop'', ''dbcreate'']"
    and "Settle ''dbdrop'' q \<in> set tr \<Longrightarrow> \<not> is_resolved q \<Longrightarrow> database_actions tr = [''dbdrop'']"
proof -
  from reset_shapes [OF assms] obtain pre where
    pre: "database_actions pre = []" "\<forall>q. Settle ''dbdrop'' q \<notin> set pre"
    and shape: "(\<not> is_resolved r \<and> tr = pre) \<or>
            (\<not> is_resolved r \<and>
               tr = pre @ [Invoke ''dbdrop'' [], Handler ''dbdrop'' [], Settle ''dbdrop'' r]) \<or>
            (\<exists>v. tr = pre @
               [Invoke ''dbdrop'' [], Handler ''dbdrop'' [], Settle ''dbdrop'' (Resolved v),
                Invoke ''dbcreate'' [], Handler ''dbcreate'' [], Settle ''dbcreate'' r])"
    by blast
  from pipeline_trace_last [OF assms] obtain p0 c0 where l: "tr = p0 @ [Settle c0 r]"
    by (auto simp: build_gate_def)
  then have last_settle: "Settle c0 r \<in> set tr" by simp
  from shape consider
      (a) "\<not> is_resolved r" "database_actions tr = []" "\<forall>q. Settle ''dbdrop'' q \<notin> set tr"
    | (b) "\<not> is_resolved r" "database_actions tr = [''dbdrop'']"
    | (c) "database_actions tr = [''dbdrop'', ''dbcreate'']"
          "\<forall>q. Settle ''dbdrop'' q \<in> set tr \<longrightarrow> is_resolved q"
  proof (elim disjE conjE exE)
    assume "\<not> is_resolved r" "tr = pre"
    with pre a show ?thesis by simp
  next
    assume "\<not> is_resolved r"
      "tr = pre @ [Invoke ''dbdrop'' [], Handler ''dbdrop'' [], Settle ''dbdrop'' r]"
    with pre b show ?thesis by (simp add: database_actions_append reset_calls)
  next
    fix v
    assume s: "tr = pre @
               [Invoke ''dbdrop'' [], Handler ''dbdrop'' [], Settle ''dbdrop'' (Resolved v),
                Invoke ''dbcreate'' [], Handler ''dbcreate'' [], Settle ''dbcreate'' r]"
    with pre have "database_actions tr = [''dbdrop'', ''dbcreate'']"
      by (simp add: database_actions_append reset_calls)
    moreover from s pre(2) have "\<forall>q. Settle ''dbdrop'' q \<in> set tr \<longrightarrow> is_resolved q"
      by auto
    ultimately show ?thesis by (rule c)
  qed
  note cases3 = this
  show "prefix (database_actions tr) [''dbdrop'', ''dbcreate'']"
    by (cases rule: cases3) simp_all
  show "database_actions tr = [''dbdrop'', ''dbcreate'']"
    if "\<forall>c q. Settle c q \<in> set tr \<longrightarrow> is_resolved q"
    using that last_settle by (cases rule: cases3) auto
  show "database_actions tr = [''dbdrop'']" if "Settle ''dbdrop'' q \<in> set tr" "\<not> is_resolved q"
    using that by (cases rule: cases3) auto
qed

text \<open>
  C7: in every run of \<open>db:reset\<close> the database handlers called are, in this order, a
  beginning of drop, create: never more than the two, never create before drop. When
  no step fails, they are exactly drop, then create. When drop does not resolve, it is
  the only database handler called.
\<close>

theorem db_reset_order:
  "prefix (database_actions (trace_from w (db_reset_action rt args opts w))) [''dbdrop'', ''dbcreate''] \<and>
   ((\<forall>c q. Settle c q \<in> set (trace_from w (db_reset_action rt args opts w)) \<longrightarrow> is_resolved q) \<longrightarrow>
      database_actions (trace_from w (db_reset_action rt args opts w)) = [''dbdrop'', ''dbcreate'']) \<and>
   (\<forall>q. Settle ''dbdrop'' q \<in> set (trace_from w (db_reset_action rt args opts w)) \<longrightarrow>
        \<not> is_resolved q \<longrightarrow>
        database_actions (trace_from w (db_reset_action rt args opts w)) = [''dbdrop''])"
proof -
  have reg: "map_of (registry :: (string \<times> 's action) list) ''db:reset'' = Some db_reset_action"
    by (simp add: registry_def)
  from registered_action_trace [OF reg, of rt args opts w] obtain r tr where
    tr: "pipeline_trace rt (build_gate opts @ [(''dbdrop'', []), (''dbcreate'', [])]) r tr"
    and t: "trace_from w (db_reset_action rt args opts w) = tr @ finish_events True r"
    by (auto simp: steps_of_simps exits_on_success_simps)
  have da: "database_actions (trace_from w (db_reset_action rt args opts w)) = database_actions tr"
    by (simp add: t database_actions_def handled_append finish_events_readings)
  have se: "Settle c q \<in> set (trace_from w (db_reset_action rt args opts w)) \<longleftrightarrow> Settle c q \<in> set tr"
    for c q
    by (simp add: t finish_events_readings)
  from reset_order_core [OF tr] show ?thesis
    unfolding da se by blast
qed

theorem db_reset_order_witness:
  "trace_from (sample_world ''/srv/app'')
     (db_reset_action (sample_runtime app_manifest all_resolve) [] no_options (sample_world ''/srv/app''))
   = [Invoke ''build'' [JBool True], Handler ''build'' [JBool True], Settle ''build'' (Resolved Undefined),
      Invoke ''dbdrop'' [], Handler ''dbdrop'' [], Settle ''dbdrop'' (Resolved Undefined),
      Invoke ''dbcreate'' [], Handler ''dbcreate'' [], Settle ''dbcreate'' (Resolved Undefined),
      ProcessExit (JNum 0)] \<and>
   database_actions (trace_from (sample_world ''/srv/app'')
     (db_reset_action (sample_runtime app_manifest all_resolve) [] no_options (sample_world ''/srv/app'')))
   = [''dbdrop'', ''dbcreate''] \<and>
   Settle ''dbdrop'' (drop_fails ''dbdrop'') \<in> set (trace_from (sample_world ''/srv/app'')
     (db_reset_action (sample_runtime app_manifest drop_fails) [] no_options (sample_world ''/srv/app''))) \<and>
   \<not> is_resolved (drop_fails ''dbdrop'') \<and>
   database_actions (trace_from (sample_world ''/srv/app'')
     (db_reset_action (sample_runtime app_manifest drop_fails) [] no_options (sample_world ''/srv/app'')))
   = [''dbdrop'']"
proof -
  let ?ok = "trace_from (sample_world ''/srv/app'')
     (db_reset_action (sample_runtime app_manifest all_resolve) [] no_options (sample_world ''/srv/app''))"
  let ?ko = "trace_from (sample_world ''/srv/app'')
     (db_reset_action (sample_runtime app_manifest drop_fails) [] no_options (sample_world ''/srv/app''))"
  have a: "?ok = [Invoke ''build'' [JBool True], Handler ''build'' [JBool True], Settle ''build'' (Resolved Undefined),
      Invoke ''dbdrop'' [], Handler ''dbdrop'' [], Settle ''dbdrop'' (Resolved Undefined),
      Invoke ''dbcreate'' [], Handler ''dbcreate'' [], Settle ''dbcreate'' (Resolved Undefined),
      ProcessExit (JNum 0)]"
    by code_simp
  then have b: "\<forall>c q. Settle c q \<in> set ?ok \<longrightarrow> is_resolved q" by auto
  have c: "Settle ''dbdrop'' (drop_fails ''dbdrop'') \<in> set ?ko" by code_simp
  have d: "\<not> is_resolved (drop_fails ''dbdrop'')" by (simp add: drop_fails_def)
  from db_reset_order [of "sample_world ''/srv/app''" "sample_runtime app_manifest all_resolve" "[]" no_options] b
  have e: "database_actions ?ok = [''dbdrop'', ''dbcreate'']" by blast
  from db_reset_order [of "sample_world ''/srv/app''" "sample_runtime app_manifest drop_fails" "[]" no_options] c d
  have f: "database_actions ?ko = [''dbdrop'']" by blast
  from a c d e f show ?thesis by blast
qed

lemma registered_steps_nonempty:
  assumes "map_of (registry :: (string \<times> 's action) list) name = Some (action :: 's action)"
  shows "steps_of name args opts \<noteq> []"
  using registry_cases [OF assms] by (auto simp: steps_of_simps)

text \<open>
  C2, as the specification states it, has every registered command end the process when
  its pipeline completes. \<open>serve\<close> in a project, with every handler resolving: the
  pipeline completes and \<open>process.exit\<close> is not called.
\<close>

theorem serve_exit_counterexample:
  "trace_from (sample_world ''/srv/app'')
     (dispatch (sample_runtime app_manifest all_resolve) [''serve''] [] no_options (sample_world ''/srv/app''))
   = [Invoke ''build'' [JBool True], Handler ''build'' [JBool True], Settle ''build'' (Resolved Undefined),
      Invoke ''serve'' [JObj [(''hot'', Undefined), (''cluster'', Undefined), (''useStrict'', JBool True)]],
      Handler ''serve'' [JObj [(''hot'', Undefined), (''cluster'', Undefined), (''useStrict'', JBool True)]],
      Settle ''serve'' (Resolved Undefined)] \<and>
   exits (trace_from (sample_world ''/srv/app'')
     (dispatch (sample_runtime app_manifest all_resolve) [''serve''] [] no_options (sample_world ''/srv/app'')))
   = []"
  by code_simp

text \<open>
  C2, amended: a run of a registered command calls \<open>process.exit\<close> at most once. When a
  step's promise is rejected, the run ends with the error's \<open>stack\<close> on the error
  stream and then \<open>process.exit(1)\<close>, and nothing else is printed there nor any other
  exit made. When every step resolves, a command other than \<open>serve\<close> has run all its
  steps and ends with \<open>process.exit\<close> of the last step's result if that is a number,
  and of 0 otherwise, with nothing on the error stream; \<open>serve\<close> then neither exits
  nor prints an error.
\<close>

theorem exit_reporting:
  assumes "map_of (registry :: (string \<times> 's action) list) name = Some action"
  shows "length (exits (trace_from w (action rt args opts w))) \<le> 1 \<and>
    (\<forall>c e. Settle c (Rejected e) \<in> set (trace_from w (action rt args opts w)) \<longrightarrow>
       (\<exists>pre. trace_from w (action rt args opts w)
                 = pre @ [ConsoleError (stack e), ProcessExit (JNum 1)] \<and>
              exits pre = [] \<and> printed_errors pre = [])) \<and>
    ((\<forall>c q. Settle c q \<in> set (trace_from w (action rt args opts w)) \<longrightarrow> is_resolved q) \<longrightarrow>
       (if name \<in> set [''s'', ''serve'']
        then exits (trace_from w (action rt args opts w)) = [] \<and>
             printed_errors (trace_from w (action rt args opts w)) = []
        else (\<exists>pre c v. trace_from w (action rt args opts w)
                 = pre @ [Settle c (Resolved v), ProcessExit (if is_number v then v else JNum 0)] \<and>
               exits pre = [] \<and>
               printed_errors (trace_from w (action rt args opts w)) = [] \<and>
               invoked (trace_from w (action rt args opts w)) = map fst (steps_of name args opts))))"
proof -
  let ?T = "trace_from w (action rt args opts w)"
  from registered_action_trace [OF assms, of rt args opts w] obtain r tr where
    tr: "pipeline_trace rt (steps_of name args opts) r tr"
    and t: "?T = tr @ finish_events (exits_on_success name) r"
    by blast
  note q = pipeline_trace_quiet [OF tr]
  from pipeline_trace_last [OF tr registered_steps_nonempty [OF assms]]
  obtain p0 c0 where l: "tr = p0 @ [Settle c0 r]" by blast
  with q have p0: "exits p0 = []" "printed_errors p0 = []"
    by (simp_all add: exits_append printed_errors_append)
  have se: "Settle c q \<in> set ?T \<longleftrightarrow> Settle c q \<in> set tr" for c q
    by (simp add: t finish_events_readings)
  have last_settle: "Settle c0 r \<in> set ?T" by (simp add: se l)
  show ?thesis
  proof (cases r)
    case (Resolved v)
    have nr: "Settle c (Rejected e) \<notin> set ?T" for c e
    proof
      assume "Settle c (Rejected e) \<in> set ?T"
      then have "Settle c (Rejected e) \<in> set tr" by (simp add: se)
      from pipeline_trace_unresolved [OF tr this] Resolved show False by simp
    qed
    from pipeline_trace_invoked [OF tr] Resolved
    have inv: "invoked ?T = map fst (steps_of name args opts)"
      by (simp add: t invoked_append finish_events_readings)
    show ?thesis
    proof (cases "exits_on_success name")
      case True
      with Resolved t l have
        "?T = (p0 @ [Settle c0 (Resolved v)]) @ [ProcessExit (if is_number v then v else JNum 0)]"
        by (simp add: finish_events_def)
      then have shape: "?T = p0 @ [Settle c0 (Resolved v), ProcessExit (if is_number v then v else JNum 0)]"
        by simp
      then have "exits ?T = [if is_number v then v else JNum 0]" "printed_errors ?T = []"
        using p0 by (simp_all add: exits_append printed_errors_append)
      with shape p0 nr inv True show ?thesis
        by (auto simp: exits_on_success_def)
    next
      case False
      with Resolved t have "?T = tr" by (simp add: finish_events_def)
      with q nr False show ?thesis by (auto simp: exits_on_success_def)
    qed
  next
    case (Rejected e0)
    with t have shape: "?T = tr @ [ConsoleError (stack e0), ProcessExit (JNum 1)]"
      by (simp add: finish_events_def)
    with q have ex: "exits ?T = [JNum 1]" by (simp add: exits_append)
    have rej: "e = e0" if "Settle c (Rejected e) \<in> set ?T" for c e
    proof -
      from that have "Settle c (Rejected e) \<in> set tr" by (simp add: se)
      from pipeline_trace_unresolved [OF tr this] Rejected show ?thesis by simp
    qed
    from last_settle Rejected have "\<not> (\<forall>c q. Settle c q \<in> set ?T \<longrightarrow> is_resolved q)"
      by force
    with shape ex q rej show ?thesis by (metis One_nat_def le_refl length_Cons list.size(3))
  next
    case Never
    with t have shape: "?T = tr" by (simp add: finish_events_def)
    have nr: "Settle c (Rejected e) \<notin> set ?T" for c e
    proof
      assume "Settle c (Rejected e) \<in> set ?T"
      then have "Settle c (Rejected e) \<in> set tr" by (simp add: se)
      from pipeline_trace_unresolved [OF tr this] Never show False by simp
    qed
    from last_settle Never have "\<not> (\<forall>c q. Settle c q \<in> set ?T \<longrightarrow> is_resolved q)"
      by force
    with shape q nr show ?thesis by auto
  qed
qed

theorem exit_reporting_witness:
  "map_of (registry :: (string \<times> unit action) list) ''test'' = Some test_action \<and>
   trace_from (sample_world ''/srv/app'')
     (test_action (sample_runtime app_manifest tests_fail) [] no_options (sample_world ''/srv/app''))
   = [Invoke ''test'' [], Handler ''test'' [], Settle ''test'' (Resolved (JNum 2)), ProcessExit (JNum 2)] \<and>
   ''test'' \<notin> set [''s'', ''serve''] \<and>
   (\<exists>pre c v. trace_from (sample_world ''/srv/app'')
        (test_action (sample_runtime app_manifest tests_fail) [] no_options (sample_world ''/srv/app''))
      = pre @ [Settle c (Resolved v), ProcessExit (if is_number v then v else JNum 0)] \<and>
      exits pre = []) \<and>
   map_of (registry :: (string \<times> unit action) list) ''db:migrate'' = Some db_migrate_action \<and>
   Settle ''build'' (Rejected \<lparr>message = ''build failed'', stack = ''Error: build failed''\<rparr>)
     \<in> set (trace_from (sample_world ''/srv/app'')
        (db_migrate_action (sample_runtime app_manifest build_fails) [] no_options (sample_world ''/srv/app''))) \<and>
   (\<exists>pre. trace_from (sample_world ''/srv/app'')
        (db_migrate_action (sample_runtime app_manifest build_fails) [] no_options (sample_world ''/srv/app''))
      = pre @ [ConsoleError ''Error: build failed'', ProcessExit (JNum 1)] \<and>
      exits pre = [] \<and> printed_errors pre = [])"
proof -
  let ?ok = "trace_from (sample_world ''/srv/app'')
     (test_action (sample_runtime app_manifest tests_fail) [] no_options (sample_world ''/srv/app''))"
  let ?ko = "trace_from (sample_world ''/srv/app'')
        (db_migrate_action (sample_runtime app_manifest build_fails) [] no_options (sample_world ''/srv/app''))"
  have a: "map_of (registry :: (string \<times> unit action) list) ''test'' = Some test_action"
    by (simp add: registry_def)
  have b: "?ok = [Invoke ''test'' [], Handler ''test'' [], Settle ''test'' (Resolved (JNum 2)), ProcessExit (JNum 2)]"
    by code_simp
  then have c: "\<forall>c q. Settle c q \<in> set ?ok \<longrightarrow> is_resolved q" by auto
  have d: "''test'' \<notin> set [''s'', ''serve'']" by simp
  have e: "map_of (registry :: (string \<times> unit action) list) ''db:migrate'' = Some db_migrate_action"
    by (simp add: registry_def)
  have f: "Settle ''build'' (Rejected \<lparr>message = ''build failed'', stack = ''Error: build failed''\<rparr>) \<in> set ?ko"
    by code_simp
  from exit_reporting [OF a, of "sample_world ''/srv/app''" "sample_runtime app_manifest tests_fail" "[]" no_options] c d
  have g: "\<exists>pre c v. ?ok = pre @ [Settle c (Resolved v), ProcessExit (if is_number v then v else JNum 0)] \<and>
      exits pre = []"
    by (simp only: if_False) blast
  from exit_reporting [OF e, of "sample_world ''/srv/app''" "sample_runtime app_manifest build_fails" "[]" no_options] f
  have h: "\<exists>pre. ?ko = pre @ [ConsoleError ''Error: build failed'', ProcessExit (JNum 1)] \<and>
      exits pre = [] \<and> printed_errors pre = []"
    by force
  from a b d e f g h show ?thesis by blast
qed

section \<open>Derived flags\<close>

lemma weak_steps:
  assumes "name \<in> set use_weak_commands" and "(c, a) \<in> set (steps_of name args opts)"
  shows "(c = ''build'' \<longrightarrow> a = [JBool (\<not> truthy (useWeak opts))]) \<and>
         (c = ''serve'' \<longrightarrow>
            a = [JObj [(''hot'', hot opts), (''cluster'', cluster opts),
                       (''useStrict'', JBool (\<not> truthy (useWeak opts)))]])"
  using assms unfolding use_weak_commands_def
  by (auto simp: steps_of_simps build_gate_def js_not_def split: if_splits)

lemma weak_first_step:
  assumes "name \<in> set use_weak_commands"
    and "name \<in> set [''b'', ''build''] \<or> \<not> truthy (skipBuild opts)"
  shows "\<exists>rest. steps_of name args opts = (''build'', [JBool (\<not> truthy (useWeak opts))]) # rest"
  using assms unfolding use_weak_commands_def
  by (auto simp: steps_of_simps build_gate_def js_not_def)

lemma serve_skip_steps:
  assumes "name \<in> set [''s'', ''serve'']" and "truthy (skipBuild opts)"
  shows "steps_of name args opts =
           [(''serve'', [JObj [(''hot'', hot opts), (''cluster'', cluster opts),
                               (''useStrict'', JBool (\<not> truthy (useWeak opts)))]])]"
  using assms by (auto simp: steps_of_simps build_gate_def js_not_def)

lemma inLuxProject_frame:
  "cwd w' = cwd w \<Longrightarrow> ext w' = ext w \<Longrightarrow> inLuxProject rt w' = inLuxProject rt w"
  by (simp add: inLuxProject_def manifest_check_def manifest_path_def)

lemma exec_called:
  assumes "\<not> needsProject c \<or> inLuxProject rt w"
  shows "exec rt c a w =
           (fst (handlers rt c a (cwd w) (env w) (ext w)),
            w\<lparr>ext := snd (handlers rt c a (cwd w) (env w) (ext w)),
              events := events w @
                [Invoke c a, Handler c a,
                 Settle c (fst (handlers rt c a (cwd w) (env w) (ext w)))]\<rparr>)"
proof -
  obtain r x where h: "handlers rt c a (cwd w) (env w) (ext w) = (r, x)"
    by (cases "handlers rt c a (cwd w) (env w) (ext w)")
  from assms have "\<not> (needsProject c \<and> \<not> inLuxProject rt w)" by blast
  with h show ?thesis by (auto simp: exec_def)
qed

lemma pipeline_called:
  assumes "\<not> needsProject c \<or> inLuxProject rt w"
  shows "\<exists>tl. events (snd (pipeline rt ((c, a) # rest) w)) = events w @ Invoke c a # Handler c a # tl"
proof (cases rest)
  case Nil
  with exec_called [OF assms, of a] show ?thesis by simp
next
  case (Cons s rest')
  let ?r = "fst (handlers rt c a (cwd w) (env w) (ext w))"
  let ?w1 = "w\<lparr>ext := snd (handlers rt c a (cwd w) (env w) (ext w)),
               events := events w @ [Invoke c a, Handler c a, Settle c ?r]\<rparr>"
  have e: "exec rt c a w = (?r, ?w1)" by (rule exec_called [OF assms])
  show ?thesis
  proof (cases ?r)
    case (Resolved v)
    obtain r' w' where p: "pipeline rt (s # rest') ?w1 = (r', w')"
      by (cases "pipeline rt (s # rest') ?w1")
    from pipeline_sound [OF p] obtain tr where "events w' = events ?w1 @ tr" by blast
    moreover from e Resolved p Cons have "pipeline rt ((c, a) # rest) w = (r', w')"
      by (simp add: then_p_def)
    ultimately show ?thesis by simp
  next
    case (Rejected err)
    with e Cons have "pipeline rt ((c, a) # rest) w = (?r, ?w1)" by (simp add: then_p_def)
    then show ?thesis by simp
  next
    case Never
    with e Cons have "pipeline rt ((c, a) # rest) w = (?r, ?w1)" by (simp add: then_p_def)
    then show ?thesis by simp
  qed
qed

lemma action_first_step:
  assumes "map_of (registry :: (string \<times> 's action) list) name = Some action"
    and "steps_of name args opts = (c, a) # rest"
  shows "\<exists>tl. trace_from w (action rt args opts w) = Invoke c a # tl"
    and "\<not> needsProject c \<or> inLuxProject rt w \<Longrightarrow>
           \<exists>tl. trace_from w (action rt args opts w) = Invoke c a # Handler c a # tl"
proof -
  from registered_action_trace [OF assms(1), of rt args opts w] assms(2) obtain r tr where
    tr: "pipeline_trace rt ((c, a) # rest) r tr"
    and t: "trace_from w (action rt args opts w) = tr @ finish_events (exits_on_success name) r"
    by auto
  from pipeline_trace_head [OF tr] t
  show "\<exists>tl. trace_from w (action rt args opts w) = Invoke c a # tl" by auto
  assume g: "\<not> needsProject c \<or> inLuxProject rt w"
  from registered_action_form [OF assms(1), of w rt args opts] assms(2) obtain w1 where
    w1: "prepared w w1"
    and f: "action rt args opts w =
              snd (finish (exits_on_success name) (pipeline rt ((c, a) # rest)) w1)"
    by auto
  from w1 have same: "events w1 = events w" "cwd w1 = cwd w" "ext w1 = ext w"
    by (simp_all add: prepared_def)
  with g inLuxProject_frame [of w1 w rt] have g1: "\<not> needsProject c \<or> inLuxProject rt w1" by simp
  obtain r' w' where p: "pipeline rt ((c, a) # rest) w1 = (r', w')"
    by (cases "pipeline rt ((c, a) # rest) w1")
  from pipeline_called [OF g1, of a rest] p obtain tl where
    "events w' = events w1 @ Invoke c a # Handler c a # tl" by auto
  with finish_trace [of "pipeline rt ((c, a) # rest)" w1 r' w' "exits_on_success name"] p f same
  have "events (action rt args opts w)
          = events w @ Invoke c a # Handler c a # tl @ finish_events (exits_on_success name) r'"
    by simp
  then show "\<exists>tl. trace_from w (action rt args opts w) = Invoke c a # Handler c a # tl"
    by (simp add: trace_from_def)
qed

lemma pipeline_trace_resolved:
  "pipeline_trace rt steps r tr \<Longrightarrow> Settle c (Resolved v) \<in> set tr \<Longrightarrow> \<exists>a. Handler c a \<in> set tr"
proof (induction rule: pipeline_trace.induct)
  case empty
  then show ?case by simp
next
  case (stop c0 a r st rest)
  then show ?case by (auto simp: step_events_def)
next
  case (last c0 a v0 st)
  then show ?case by (auto simp: step_events_def)
next
  case (more c0 a v0 st rest r tr)
  from more.prems have "Settle c (Resolved v) \<in> set st \<or> Settle c (Resolved v) \<in> set tr" by simp
  then show ?case
  proof
    assume "Settle c (Resolved v) \<in> set st"
    with more.hyps(1) have "\<exists>a. Handler c a \<in> set st" by (auto simp: step_events_def)
    then show ?thesis by auto
  next
    assume "Settle c (Resolved v) \<in> set tr"
    with more.IH show ?thesis by auto
  qed
qed


lemma serve_trace:
  "\<exists>r tr. pipeline_trace rt
            (build_gate opts @
               [(''serve'', [JObj [(''hot'', hot opts), (''cluster'', cluster opts),
                                   (''useStrict'', js_not (useWeak opts))]])]) r tr \<and>
          trace_from w (serve_action rt args opts w) = tr @ finish_events False r"
proof -
  have reg: "map_of (registry :: (string \<times> 's action) list) ''serve'' = Some serve_action"
    by (simp add: registry_def)
  from registered_action_trace [OF reg, of rt args opts w] show ?thesis
    by (auto simp: steps_of_simps exits_on_success_simps)
qed

lemma finish_env: "env (snd (finish ex (pipeline rt steps) w)) = env w"
  using finish_pipeline [of rt steps ex w] by blast

lemma serve_env:
  "env (serve_action rt args opts w) =
   env (snd (setEnvVar ''NODE_ENV'' (environment opts) (JStr ''development'')
              (snd (setEnvVar ''PORT'' (port opts) (JNum 4000) w))))"
  by (simp add: serve_pipeline finish_env)

lemma port_weak_options_fields:
  "port (port_weak_options big) = JNum 5000" "useWeak (port_weak_options big) = JBool True"
  "skipBuild (port_weak_options big) = Undefined" "hot (port_weak_options big) = Undefined"
  "cluster (port_weak_options big) = Undefined" "environment (port_weak_options big) = Undefined"
  by (simp_all add: port_weak_options_def no_options_def parseInt10_def parse_digits_def
        is_space_def is_digit_def digit_value_def)

lemma serve_after_build:
  assumes "\<not> truthy (skipBuild opts)" and "inLuxProject rt w"
    and "handlers rt ''build'' [JBool (\<not> truthy (useWeak opts))] (cwd w)
           (env (serve_action rt args opts w)) (ext w) = (Resolved v, x)"
    and "inLuxProject rt (w\<lparr>ext := x\<rparr>)"
  shows "trace_from w (serve_action rt args opts w) =
          [Invoke ''build'' [JBool (\<not> truthy (useWeak opts))],
           Handler ''build'' [JBool (\<not> truthy (useWeak opts))],
           Settle ''build'' (Resolved v),
           Invoke ''serve'' [JObj [(''hot'', hot opts), (''cluster'', cluster opts),
                                   (''useStrict'', JBool (\<not> truthy (useWeak opts)))]],
           Handler ''serve'' [JObj [(''hot'', hot opts), (''cluster'', cluster opts),
                                    (''useStrict'', JBool (\<not> truthy (useWeak opts)))]],
           Settle ''serve''
             (fst (handlers rt ''serve''
                     [JObj [(''hot'', hot opts), (''cluster'', cluster opts),
                            (''useStrict'', JBool (\<not> truthy (useWeak opts)))]]
                     (cwd w) (env (serve_action rt args opts w)) x))]
          @ finish_events False
             (fst (handlers rt ''serve''
                     [JObj [(''hot'', hot opts), (''cluster'', cluster opts),
                            (''useStrict'', JBool (\<not> truthy (useWeak opts)))]]
                     (cwd w) (env (serve_action rt args opts w)) x))"
proof -
  let ?b = "[JBool (\<not> truthy (useWeak opts))]"
  let ?f = "[JObj [(''hot'', hot opts), (''cluster'', cluster opts),
                   (''useStrict'', JBool (\<not> truthy (useWeak opts)))]]"
  let ?w1 = "snd (setEnvVar ''NODE_ENV'' (environment opts) (JStr ''development'')
                (snd (setEnvVar ''PORT'' (port opts) (JNum 4000) w)))"
  let ?E = "env (serve_action rt args opts w)"
  have E: "env ?w1 = ?E" by (simp add: serve_env)
  have w1: "events ?w1 = events w" "cwd ?w1 = cwd w" "ext ?w1 = ext w"
    by (simp_all add: setEnvVar_frame)
  let ?w2 = "?w1\<lparr>ext := x, events := events w @ [Invoke ''build'' ?b, Handler ''build'' ?b,
                                                     Settle ''build'' (Resolved v)]\<rparr>"
  have p1: "inLuxProject rt ?w1" using assms(2) inLuxProject_frame [of ?w1 w rt] w1 by simp
  have e1: "exec rt ''build'' ?b ?w1 = (Resolved v, ?w2)"
    using exec_called [of "''build''" rt ?w1 ?b] p1 assms(3) w1 E by simp
  have p2: "inLuxProject rt ?w2"
    using assms(4) inLuxProject_frame [of ?w2 "w\<lparr>ext := x\<rparr>" rt] w1 by simp
  let ?r = "fst (handlers rt ''serve'' ?f (cwd w) ?E x)"
  let ?w3 = "?w2\<lparr>ext := snd (handlers rt ''serve'' ?f (cwd w) ?E x),
                 events := events ?w2 @ [Invoke ''serve'' ?f, Handler ''serve'' ?f, Settle ''serve'' ?r]\<rparr>"
  have e2: "exec rt ''serve'' ?f ?w2 = (?r, ?w3)"
    using exec_called [of "''serve''" rt ?w2 ?f] p2 w1 E by simp
  let ?steps = "build_gate opts @ [(''serve'', [JObj [(''hot'', hot opts), (''cluster'', cluster opts),
                                   (''useStrict'', js_not (useWeak opts))]])]"
  have p: "pipeline rt ?steps ?w1 = (?r, ?w3)"
    using assms(1) e1 e2 by (simp add: build_gate_def js_not_def then_p_def)
  from finish_trace [of "pipeline rt ?steps" ?w1 ?r ?w3 False] p
  have "events (serve_action rt args opts w) = events ?w3 @ finish_events False ?r"
    by (simp add: serve_pipeline)
  then show ?thesis by (simp add: trace_from_def)
qed


lemma action_step_args:
  assumes "name \<in> set use_weak_commands"
    and "map_of (registry :: (string \<times> 's action) list) name = Some action"
  shows "Invoke ''build'' a \<in> set (trace_from w (action rt args opts w)) \<or>
         Handler ''build'' a \<in> set (trace_from w (action rt args opts w)) \<Longrightarrow>
           a = [JBool (\<not> truthy (useWeak opts))]"
    and "Invoke ''serve'' a \<in> set (trace_from w (action rt args opts w)) \<or>
         Handler ''serve'' a \<in> set (trace_from w (action rt args opts w)) \<Longrightarrow>
           a = [JObj [(''hot'', hot opts), (''cluster'', cluster opts),
                      (''useStrict'', JBool (\<not> truthy (useWeak opts)))]]"
proof -
  from registered_action_trace [OF assms(2), of rt args opts w] obtain r tr where
    tr: "pipeline_trace rt (steps_of name args opts) r tr"
    and t: "trace_from w (action rt args opts w) = tr @ finish_events (exits_on_success name) r"
    by blast
  {
    assume "Invoke ''build'' a \<in> set (trace_from w (action rt args opts w)) \<or>
            Handler ''build'' a \<in> set (trace_from w (action rt args opts w))"
    with t have "Invoke ''build'' a \<in> set tr \<or> Handler ''build'' a \<in> set tr"
      by (simp add: finish_events_readings)
    with pipeline_trace_steps [OF tr] have "(''build'', a) \<in> set (steps_of name args opts)" by blast
    from weak_steps [OF assms(1) this] show "a = [JBool (\<not> truthy (useWeak opts))]" by simp
  }
  {
    assume "Invoke ''serve'' a \<in> set (trace_from w (action rt args opts w)) \<or>
            Handler ''serve'' a \<in> set (trace_from w (action rt args opts w))"
    with t have "Invoke ''serve'' a \<in> set tr \<or> Handler ''serve'' a \<in> set tr"
      by (simp add: finish_events_readings)
    with pipeline_trace_steps [OF tr] have "(''serve'', a) \<in> set (steps_of name args opts)" by blast
    from weak_steps [OF assms(1) this]
    show "a = [JObj [(''hot'', hot opts), (''cluster'', cluster opts),
                     (''useStrict'', JBool (\<not> truthy (useWeak opts)))]]" by simp
  }
qed

lemma project_steps: "needsProject ''build''" "needsProject ''serve''"
  by code_simp+

lemma action_build_first:
  assumes "name \<in> set use_weak_commands"
    and "map_of (registry :: (string \<times> 's action) list) name = Some action"
    and "name \<in> set [''b'', ''build''] \<or> \<not> truthy (skipBuild opts)"
  shows "\<exists>tl. trace_from w (action rt args opts w)
                = Invoke ''build'' [JBool (\<not> truthy (useWeak opts))] # tl"
    and "inLuxProject rt w \<Longrightarrow>
           \<exists>tl. trace_from w (action rt args opts w)
                  = Invoke ''build'' [JBool (\<not> truthy (useWeak opts))]
                    # Handler ''build'' [JBool (\<not> truthy (useWeak opts))] # tl"
proof -
  from weak_first_step [OF assms(1,3), of args] obtain rest where
    st: "steps_of name args opts = (''build'', [JBool (\<not> truthy (useWeak opts))]) # rest"
    by blast
  from action_first_step(1) [OF assms(2) st]
  show "\<exists>tl. trace_from w (action rt args opts w)
                = Invoke ''build'' [JBool (\<not> truthy (useWeak opts))] # tl" .
  assume "inLuxProject rt w"
  then have "\<not> needsProject ''build'' \<or> inLuxProject rt w" by simp
  from action_first_step(2) [OF assms(2) st this]
  show "\<exists>tl. trace_from w (action rt args opts w)
                  = Invoke ''build'' [JBool (\<not> truthy (useWeak opts))]
                    # Handler ''build'' [JBool (\<not> truthy (useWeak opts))] # tl" .
qed

lemma serve_registered:
  "map_of (registry :: (string \<times> 's action) list) ''serve'' = Some serve_action"
  "''serve'' \<in> set use_weak_commands"
  by (simp_all add: registry_def use_weak_commands_def)

lemma serve_steps:
  fixes w :: "'s world"
  shows "truthy (skipBuild opts) \<Longrightarrow>
           \<exists>tl. trace_from w (serve_action rt args opts w)
                  = Invoke ''serve'' [JObj [(''hot'', hot opts), (''cluster'', cluster opts),
                                            (''useStrict'', JBool (\<not> truthy (useWeak opts)))]] # tl"
    and "truthy (skipBuild opts) \<Longrightarrow> inLuxProject rt w \<Longrightarrow>
           \<exists>tl. trace_from w (serve_action rt args opts w)
                  = Invoke ''serve'' [JObj [(''hot'', hot opts), (''cluster'', cluster opts),
                                            (''useStrict'', JBool (\<not> truthy (useWeak opts)))]]
                    # Handler ''serve'' [JObj [(''hot'', hot opts), (''cluster'', cluster opts),
                                               (''useStrict'', JBool (\<not> truthy (useWeak opts)))]] # tl"
    and "Settle ''build'' (Resolved v) \<in> set (trace_from w (serve_action rt args opts w)) \<Longrightarrow>
           Invoke ''serve'' [JObj [(''hot'', hot opts), (''cluster'', cluster opts),
                                   (''useStrict'', JBool (\<not> truthy (useWeak opts)))]]
             \<in> set (trace_from w (serve_action rt args opts w))"
    and "Settle ''serve'' (Resolved v) \<in> set (trace_from w (serve_action rt args opts w)) \<Longrightarrow>
           Handler ''serve'' [JObj [(''hot'', hot opts), (''cluster'', cluster opts),
                                    (''useStrict'', JBool (\<not> truthy (useWeak opts)))]]
             \<in> set (trace_from w (serve_action rt args opts w))"
proof -
  let ?f = "[JObj [(''hot'', hot opts), (''cluster'', cluster opts),
                   (''useStrict'', JBool (\<not> truthy (useWeak opts)))]]"
  let ?S = "trace_from w (serve_action rt args opts w)"
  note reg = serve_registered(1) [where ?'s = 's]
  from serve_trace [of rt opts w args] obtain r tr where
    tr: "pipeline_trace rt (build_gate opts @ [(''serve'', ?f)]) r tr"
    and t: "?S = tr @ finish_events False r"
    by (auto simp: js_not_def)
  have nb: "''build'' \<notin> fst ` set [(''serve'', ?f)]" by simp
  {
    assume sk: "truthy (skipBuild opts)"
    have st: "steps_of ''serve'' args opts = (''serve'', ?f) # []"
      using serve_skip_steps [of "''serve''" opts args] sk by simp
    from action_first_step(1) [OF reg st] show "\<exists>tl. ?S = Invoke ''serve'' ?f # tl" .
    assume "inLuxProject rt w"
    then have "\<not> needsProject ''serve'' \<or> inLuxProject rt w" by simp
    from action_first_step(2) [OF reg st this]
    show "\<exists>tl. ?S = Invoke ''serve'' ?f # Handler ''serve'' ?f # tl" .
  }
  {
    assume s: "Settle ''build'' (Resolved v) \<in> set ?S"
    with t have s': "Settle ''build'' (Resolved v) \<in> set tr" by (simp add: finish_events_readings)
    have ns: "\<not> truthy (skipBuild opts)"
    proof
      assume "truthy (skipBuild opts)"
      with tr have "pipeline_trace rt [(''serve'', ?f)] r tr" by (simp add: build_gate_def)
      from pipeline_trace_steps [OF this] s' show False by auto
    qed
    from gated_build(3) [OF tr nb _ ns s'] obtain c cs where
      i: "invoked tr = ''build'' # c # cs" by auto
    from pipeline_trace_invoked [OF tr] ns have "prefix (invoked tr) [''build'', ''serve'']"
      by (simp add: build_gate_def)
    with i have "c = ''serve''" by simp
    with i have "''serve'' \<in> set (invoked tr)" by simp
    from invoked_member [OF this] obtain a where a: "Invoke ''serve'' a \<in> set tr" by blast
    with t have a': "Invoke ''serve'' a \<in> set ?S" by simp
    with action_step_args(2) [OF serve_registered(2) reg, of a w rt args opts] have "a = ?f" by blast
    with a' show "Invoke ''serve'' ?f \<in> set ?S" by simp
  }
  {
    assume s: "Settle ''serve'' (Resolved v) \<in> set ?S"
    with t have "Settle ''serve'' (Resolved v) \<in> set tr" by (simp add: finish_events_readings)
    from pipeline_trace_resolved [OF tr this] obtain a where "Handler ''serve'' a \<in> set tr" by blast
    with t have a': "Handler ''serve'' a \<in> set ?S" by simp
    with action_step_args(2) [OF serve_registered(2) reg, of a w rt args opts] have "a = ?f" by blast
    with a' show "Handler ''serve'' ?f \<in> set ?S" by simp
  }
qed

lemma serve_names:
  assumes "map_of (registry :: (string \<times> 's action) list) name = Some action"
    and "name \<in> set [''s'', ''serve'']"
  shows "action = serve_action"
  using assms by (auto simp: registry_def)


text \<open>
  C8: for every command that takes \<open>--use-weak\<close>, every build step and every serve step
  gets the negation of the flag as its strict flag, and these steps are taken: the run
  starts with the build step unless the build is skipped, and in a project the build
  handler is called with it; \<open>serve\<close> starts its serve step as soon as the build has
  resolved or is skipped, and in a project the serve handler is called with the flags.
  \<open>serve --port 5000 --use-weak\<close> leaves \<open>PORT\<close> set to 5000, gives the build step
  \<open>false\<close> and the serve step the flags \<open>hot\<close> and \<open>cluster\<close> undefined (falsy) and
  \<open>useStrict\<close> false.
\<close>

theorem strict_flag:
  assumes "name \<in> set use_weak_commands"
    and "map_of (registry :: (string \<times> 's action) list) name = Some action"
  shows "(\<forall>a. Invoke ''build'' a \<in> set (trace_from w (action rt args opts w)) \<or> Handler ''build'' a \<in> set (trace_from w (action rt args opts w)) \<longrightarrow>
          a = [JBool (\<not> truthy (useWeak opts))]) \<and>
   (\<forall>a. Invoke ''serve'' a \<in> set (trace_from w (action rt args opts w)) \<or> Handler ''serve'' a \<in> set (trace_from w (action rt args opts w)) \<longrightarrow>
          a = [JObj [(''hot'', hot opts), (''cluster'', cluster opts), (''useStrict'', JBool (\<not> truthy (useWeak opts)))]]) \<and>
   (name \<in> set [''b'', ''build''] \<or> \<not> truthy (skipBuild opts) \<longrightarrow>
      (\<exists>tl. (trace_from w (action rt args opts w)) = Invoke ''build'' [JBool (\<not> truthy (useWeak opts))] # tl) \<and>
      (inLuxProject rt w \<longrightarrow>
         (\<exists>tl. (trace_from w (action rt args opts w)) = Invoke ''build'' [JBool (\<not> truthy (useWeak opts))] # Handler ''build'' [JBool (\<not> truthy (useWeak opts))] # tl))) \<and>
   (name \<in> set [''s'', ''serve''] \<longrightarrow>
      (truthy (skipBuild opts) \<longrightarrow>
         (\<exists>tl. (trace_from w (action rt args opts w)) = Invoke ''serve'' [JObj [(''hot'', hot opts), (''cluster'', cluster opts), (''useStrict'', JBool (\<not> truthy (useWeak opts)))]] # tl) \<and>
         (inLuxProject rt w \<longrightarrow>
            (\<exists>tl. (trace_from w (action rt args opts w)) = Invoke ''serve'' [JObj [(''hot'', hot opts), (''cluster'', cluster opts), (''useStrict'', JBool (\<not> truthy (useWeak opts)))]] # Handler ''serve'' [JObj [(''hot'', hot opts), (''cluster'', cluster opts), (''useStrict'', JBool (\<not> truthy (useWeak opts)))]] # tl))) \<and>
      (\<forall>v. Settle ''build'' (Resolved v) \<in> set (trace_from w (action rt args opts w)) \<longrightarrow> Invoke ''serve'' [JObj [(''hot'', hot opts), (''cluster'', cluster opts), (''useStrict'', JBool (\<not> truthy (useWeak opts)))]] \<in> set (trace_from w (action rt args opts w))) \<and>
      (\<forall>v. Settle ''serve'' (Resolved v) \<in> set (trace_from w (action rt args opts w)) \<longrightarrow> Handler ''serve'' [JObj [(''hot'', hot opts), (''cluster'', cluster opts), (''useStrict'', JBool (\<not> truthy (useWeak opts)))]] \<in> set (trace_from w (action rt args opts w))) \<and>
      (\<forall>v x. \<not> truthy (skipBuild opts) \<longrightarrow> inLuxProject rt w \<longrightarrow>
         handlers rt ''build'' [JBool (\<not> truthy (useWeak opts))] (cwd w) (env (action rt args opts w)) (ext w) = (Resolved v, x) \<longrightarrow>
         inLuxProject rt (w\<lparr>ext := x\<rparr>) \<longrightarrow>
         (\<exists>tl. (trace_from w (action rt args opts w)) = Invoke ''build'' [JBool (\<not> truthy (useWeak opts))] # Handler ''build'' [JBool (\<not> truthy (useWeak opts))] # Settle ''build'' (Resolved v)
                  # Invoke ''serve'' [JObj [(''hot'', hot opts), (''cluster'', cluster opts), (''useStrict'', JBool (\<not> truthy (useWeak opts)))]] # Handler ''serve'' [JObj [(''hot'', hot opts), (''cluster'', cluster opts), (''useStrict'', JBool (\<not> truthy (useWeak opts)))]] # tl))) \<and>
   (port (port_weak_options big) = JNum 5000 \<and> useWeak (port_weak_options big) = JBool True \<and>
    skipBuild (port_weak_options big) = Undefined \<and> hot (port_weak_options big) = Undefined \<and>
    cluster (port_weak_options big) = Undefined) \<and>
   env (serve_action rt args (port_weak_options big) w) ''PORT'' = Some (JNum 5000) \<and>
   (\<exists>tl. (trace_from w (serve_action rt args (port_weak_options big) w)) = Invoke ''build'' [JBool False] # tl) \<and>
   (\<forall>a. Invoke ''serve'' a \<in> set (trace_from w (serve_action rt args (port_weak_options big) w)) \<or> Handler ''serve'' a \<in> set (trace_from w (serve_action rt args (port_weak_options big) w)) \<longrightarrow>
          a = [JObj [(''hot'', Undefined), (''cluster'', Undefined), (''useStrict'', JBool False)]]) \<and>
   (\<forall>v. Settle ''build'' (Resolved v) \<in> set (trace_from w (serve_action rt args (port_weak_options big) w)) \<longrightarrow> Invoke ''serve'' [JObj [(''hot'', Undefined), (''cluster'', Undefined), (''useStrict'', JBool False)]] \<in> set (trace_from w (serve_action rt args (port_weak_options big) w))) \<and>
   (\<forall>v. Settle ''serve'' (Resolved v) \<in> set (trace_from w (serve_action rt args (port_weak_options big) w)) \<longrightarrow> Handler ''serve'' [JObj [(''hot'', Undefined), (''cluster'', Undefined), (''useStrict'', JBool False)]] \<in> set (trace_from w (serve_action rt args (port_weak_options big) w))) \<and>
   (\<forall>v x. inLuxProject rt w \<longrightarrow>
       handlers rt ''build'' [JBool False] (cwd w)
         (env (serve_action rt args (port_weak_options big) w)) (ext w) = (Resolved v, x) \<longrightarrow>
       inLuxProject rt (w\<lparr>ext := x\<rparr>) \<longrightarrow>
       (\<exists>tl. (trace_from w (serve_action rt args (port_weak_options big) w)) = Invoke ''build'' [JBool False] # Handler ''build'' [JBool False]
                # Settle ''build'' (Resolved v) # Invoke ''serve'' [JObj [(''hot'', Undefined), (''cluster'', Undefined), (''useStrict'', JBool False)]] # Handler ''serve'' [JObj [(''hot'', Undefined), (''cluster'', Undefined), (''useStrict'', JBool False)]] # tl))"
proof -
  have h1: "(\<forall>a. Invoke ''build'' a \<in> set (trace_from w (action rt args opts w)) \<or> Handler ''build'' a \<in> set (trace_from w (action rt args opts w)) \<longrightarrow>
          a = [JBool (\<not> truthy (useWeak opts))])"
    using action_step_args(1) [OF assms] by blast
  have h2: "(\<forall>a. Invoke ''serve'' a \<in> set (trace_from w (action rt args opts w)) \<or> Handler ''serve'' a \<in> set (trace_from w (action rt args opts w)) \<longrightarrow>
          a = [JObj [(''hot'', hot opts), (''cluster'', cluster opts), (''useStrict'', JBool (\<not> truthy (useWeak opts)))]])"
    using action_step_args(2) [OF assms] by blast
  have h3: "(name \<in> set [''b'', ''build''] \<or> \<not> truthy (skipBuild opts) \<longrightarrow>
      (\<exists>tl. (trace_from w (action rt args opts w)) = Invoke ''build'' [JBool (\<not> truthy (useWeak opts))] # tl) \<and>
      (inLuxProject rt w \<longrightarrow>
         (\<exists>tl. (trace_from w (action rt args opts w)) = Invoke ''build'' [JBool (\<not> truthy (useWeak opts))] # Handler ''build'' [JBool (\<not> truthy (useWeak opts))] # tl)))"
    using action_build_first [OF assms] by blast
  have h4: "(name \<in> set [''s'', ''serve''] \<longrightarrow>
      (truthy (skipBuild opts) \<longrightarrow>
         (\<exists>tl. (trace_from w (action rt args opts w)) = Invoke ''serve'' [JObj [(''hot'', hot opts), (''cluster'', cluster opts), (''useStrict'', JBool (\<not> truthy (useWeak opts)))]] # tl) \<and>
         (inLuxProject rt w \<longrightarrow>
            (\<exists>tl. (trace_from w (action rt args opts w)) = Invoke ''serve'' [JObj [(''hot'', hot opts), (''cluster'', cluster opts), (''useStrict'', JBool (\<not> truthy (useWeak opts)))]] # Handler ''serve'' [JObj [(''hot'', hot opts), (''cluster'', cluster opts), (''useStrict'', JBool (\<not> truthy (useWeak opts)))]] # tl))) \<and>
      (\<forall>v. Settle ''build'' (Resolved v) \<in> set (trace_from w (action rt args opts w)) \<longrightarrow> Invoke ''serve'' [JObj [(''hot'', hot opts), (''cluster'', cluster opts), (''useStrict'', JBool (\<not> truthy (useWeak opts)))]] \<in> set (trace_from w (action rt args opts w))) \<and>
      (\<forall>v. Settle ''serve'' (Resolved v) \<in> set (trace_from w (action rt args opts w)) \<longrightarrow> Handler ''serve'' [JObj [(''hot'', hot opts), (''cluster'', cluster opts), (''useStrict'', JBool (\<not> truthy (useWeak opts)))]] \<in> set (trace_from w (action rt args opts w))) \<and>
      (\<forall>v x. \<not> truthy (skipBuild opts) \<longrightarrow> inLuxProject rt w \<longrightarrow>
         handlers rt ''build'' [JBool (\<not> truthy (useWeak opts))] (cwd w) (env (action rt args opts w)) (ext w) = (Resolved v, x) \<longrightarrow>
         inLuxProject rt (w\<lparr>ext := x\<rparr>) \<longrightarrow>
         (\<exists>tl. (trace_from w (action rt args opts w)) = Invoke ''build'' [JBool (\<not> truthy (useWeak opts))] # Handler ''build'' [JBool (\<not> truthy (useWeak opts))] # Settle ''build'' (Resolved v)
                  # Invoke ''serve'' [JObj [(''hot'', hot opts), (''cluster'', cluster opts), (''useStrict'', JBool (\<not> truthy (useWeak opts)))]] # Handler ''serve'' [JObj [(''hot'', hot opts), (''cluster'', cluster opts), (''useStrict'', JBool (\<not> truthy (useWeak opts)))]] # tl)))"
  proof
    assume n: "name \<in> set [''s'', ''serve'']"
    from serve_names [OF assms(2) n] have a: "action = serve_action" .
    show "(truthy (skipBuild opts) \<longrightarrow>
         (\<exists>tl. (trace_from w (action rt args opts w)) = Invoke ''serve'' [JObj [(''hot'', hot opts), (''cluster'', cluster opts), (''useStrict'', JBool (\<not> truthy (useWeak opts)))]] # tl) \<and>
         (inLuxProject rt w \<longrightarrow>
            (\<exists>tl. (trace_from w (action rt args opts w)) = Invoke ''serve'' [JObj [(''hot'', hot opts), (''cluster'', cluster opts), (''useStrict'', JBool (\<not> truthy (useWeak opts)))]] # Handler ''serve'' [JObj [(''hot'', hot opts), (''cluster'', cluster opts), (''useStrict'', JBool (\<not> truthy (useWeak opts)))]] # tl))) \<and>
      (\<forall>v. Settle ''build'' (Resolved v) \<in> set (trace_from w (action rt args opts w)) \<longrightarrow> Invoke ''serve'' [JObj [(''hot'', hot opts), (''cluster'', cluster opts), (''useStrict'', JBool (\<not> truthy (useWeak opts)))]] \<in> set (trace_from w (action rt args opts w))) \<and>
      (\<forall>v. Settle ''serve'' (Resolved v) \<in> set (trace_from w (action rt args opts w)) \<longrightarrow> Handler ''serve'' [JObj [(''hot'', hot opts), (''cluster'', cluster opts), (''useStrict'', JBool (\<not> truthy (useWeak opts)))]] \<in> set (trace_from w (action rt args opts w))) \<and>
      (\<forall>v x. \<not> truthy (skipBuild opts) \<longrightarrow> inLuxProject rt w \<longrightarrow>
         handlers rt ''build'' [JBool (\<not> truthy (useWeak opts))] (cwd w) (env (action rt args opts w)) (ext w) = (Resolved v, x) \<longrightarrow>
         inLuxProject rt (w\<lparr>ext := x\<rparr>) \<longrightarrow>
         (\<exists>tl. (trace_from w (action rt args opts w)) = Invoke ''build'' [JBool (\<not> truthy (useWeak opts))] # Handler ''build'' [JBool (\<not> truthy (useWeak opts))] # Settle ''build'' (Resolved v)
                  # Invoke ''serve'' [JObj [(''hot'', hot opts), (''cluster'', cluster opts), (''useStrict'', JBool (\<not> truthy (useWeak opts)))]] # Handler ''serve'' [JObj [(''hot'', hot opts), (''cluster'', cluster opts), (''useStrict'', JBool (\<not> truthy (useWeak opts)))]] # tl))"
      unfolding a
      using serve_steps [where opts = opts and w = w and rt = rt and args = args]
        serve_after_build [where opts = opts and w = w and rt = rt and args = args]
      by (auto simp del: set_simps)
  qed
  note fields = port_weak_options_fields
  have h5: "(port (port_weak_options big) = JNum 5000 \<and> useWeak (port_weak_options big) = JBool True \<and>
    skipBuild (port_weak_options big) = Undefined \<and> hot (port_weak_options big) = Undefined \<and>
    cluster (port_weak_options big) = Undefined)"
    by (simp add: fields)
  have h6: "env (serve_action rt args (port_weak_options big) w) ''PORT'' = Some (JNum 5000)"
    by (simp add: serve_env fields setEnvVar_frame) (simp add: setEnvVar_def)
  note sv = serve_registered(1) [where ?'s = 's] serve_registered(2)
  have ns: "\<not> truthy (skipBuild (port_weak_options big))" by (simp add: fields)
  have h7: "(\<exists>tl. (trace_from w (serve_action rt args (port_weak_options big) w)) = Invoke ''build'' [JBool False] # tl)"
    using action_build_first(1) [OF sv(2) sv(1), where opts = "port_weak_options big" and w = w
        and rt = rt and args = args] ns
    by (simp add: fields)
  have h8: "(\<forall>a. Invoke ''serve'' a \<in> set (trace_from w (serve_action rt args (port_weak_options big) w)) \<or> Handler ''serve'' a \<in> set (trace_from w (serve_action rt args (port_weak_options big) w)) \<longrightarrow>
          a = [JObj [(''hot'', Undefined), (''cluster'', Undefined), (''useStrict'', JBool False)]])"
    using action_step_args(2) [OF sv(2) sv(1), where opts = "port_weak_options big" and w = w
        and rt = rt and args = args]
    by (simp add: fields)
  have h9: "(\<forall>v. Settle ''build'' (Resolved v) \<in> set (trace_from w (serve_action rt args (port_weak_options big) w)) \<longrightarrow> Invoke ''serve'' [JObj [(''hot'', Undefined), (''cluster'', Undefined), (''useStrict'', JBool False)]] \<in> set (trace_from w (serve_action rt args (port_weak_options big) w)))"
    using serve_steps(3) [where opts = "port_weak_options big" and w = w and rt = rt and args = args] by (simp add: fields)
  have h10: "(\<forall>v. Settle ''serve'' (Resolved v) \<in> set (trace_from w (serve_action rt args (port_weak_options big) w)) \<longrightarrow> Handler ''serve'' [JObj [(''hot'', Undefined), (''cluster'', Undefined), (''useStrict'', JBool False)]] \<in> set (trace_from w (serve_action rt args (port_weak_options big) w)))"
    using serve_steps(4) [where opts = "port_weak_options big" and w = w and rt = rt and args = args] by (simp add: fields)
  have h11: "(\<forall>v x. inLuxProject rt w \<longrightarrow>
       handlers rt ''build'' [JBool False] (cwd w)
         (env (serve_action rt args (port_weak_options big) w)) (ext w) = (Resolved v, x) \<longrightarrow>
       inLuxProject rt (w\<lparr>ext := x\<rparr>) \<longrightarrow>
       (\<exists>tl. (trace_from w (serve_action rt args (port_weak_options big) w)) = Invoke ''build'' [JBool False] # Handler ''build'' [JBool False]
                # Settle ''build'' (Resolved v) # Invoke ''serve'' [JObj [(''hot'', Undefined), (''cluster'', Undefined), (''useStrict'', JBool False)]] # Handler ''serve'' [JObj [(''hot'', Undefined), (''cluster'', Undefined), (''useStrict'', JBool False)]] # tl))"
    using serve_after_build [where opts = "port_weak_options big" and w = w and rt = rt and args = args] ns by (simp add: fields)
  from h1 h2 h3 h4 fields(1,2,3,4,5) h6 h7 h8 h9 h10 h11 show ?thesis by (intro conjI)
qed


theorem strict_flag_witness:
  "''serve'' \<in> set use_weak_commands \<and>
   map_of (registry :: (string \<times> unit action) list) ''serve'' = Some serve_action \<and>
   inLuxProject (sample_runtime app_manifest all_resolve) (sample_world ''/srv/app'') \<and>
   handlers (sample_runtime app_manifest all_resolve) ''build'' [JBool False] (cwd (sample_world ''/srv/app''))
     (env (serve_action (sample_runtime app_manifest all_resolve) [] (port_weak_options JNum) (sample_world ''/srv/app''))) (ext (sample_world ''/srv/app'')) = (Resolved Undefined, ()) \<and>
   inLuxProject (sample_runtime app_manifest all_resolve) ((sample_world ''/srv/app'')\<lparr>ext := ()\<rparr>) \<and>
   (\<exists>tl. trace_from (sample_world ''/srv/app'') (serve_action (sample_runtime app_manifest all_resolve) [] (port_weak_options JNum) (sample_world ''/srv/app''))
           = Invoke ''build'' [JBool False] # Handler ''build'' [JBool False]
             # Settle ''build'' (Resolved Undefined)
             # Invoke ''serve'' [JObj [(''hot'', Undefined), (''cluster'', Undefined), (''useStrict'', JBool False)]]
             # Handler ''serve'' [JObj [(''hot'', Undefined), (''cluster'', Undefined), (''useStrict'', JBool False)]] # tl) \<and>
   env (serve_action (sample_runtime app_manifest all_resolve) [] (port_weak_options JNum) (sample_world ''/srv/app'')) ''PORT'' = Some (JNum 5000)"
proof -
  let ?rt = "sample_runtime app_manifest all_resolve"
  let ?w = "sample_world ''/srv/app''"
  let ?o = "port_weak_options JNum"
  have a: "''serve'' \<in> set use_weak_commands" by (simp add: use_weak_commands_def)
  have b: "map_of (registry :: (string \<times> unit action) list) ''serve'' = Some serve_action"
    by (simp add: registry_def)
  have c: "inLuxProject ?rt ?w" by code_simp
  have d: "handlers ?rt ''build'' [JBool False] (cwd ?w) (env (serve_action ?rt [] ?o ?w)) (ext ?w)
             = (Resolved Undefined, ())"
    by (simp add: sample_runtime_def all_resolve_def)
  have e: "inLuxProject ?rt (?w\<lparr>ext := ()\<rparr>)" by code_simp
  note th = strict_flag [OF a b, where w = ?w and rt = ?rt and args = "[]" and opts = ?o
      and big = JNum]
  from th c d e have f: "\<exists>tl. trace_from ?w (serve_action ?rt [] ?o ?w)
           = Invoke ''build'' [JBool False] # Handler ''build'' [JBool False]
             # Settle ''build'' (Resolved Undefined)
             # Invoke ''serve'' [JObj [(''hot'', Undefined), (''cluster'', Undefined), (''useStrict'', JBool False)]]
             # Handler ''serve'' [JObj [(''hot'', Undefined), (''cluster'', Undefined), (''useStrict'', JBool False)]] # tl"
    by blast
  from th have g: "env (serve_action ?rt [] ?o ?w) ''PORT'' = Some (JNum 5000)" by blast
  from a b c d e f g show ?thesis by (intro conjI)
qed

section \<open>Project commands outside a project\<close>

text \<open>
  C4 asks that a project command fails before any handler runs when the working
  directory is no project, whatever its flags. The pattern of \<open>exec\<close> names \<open>console\<close>
  and \<open>db:.+\<close>, but the handlers these commands call are \<open>repl\<close>, \<open>dbdrop\<close> and the
  like, which the pattern does not match: with \<open>--skip-build\<close> nothing checks the
  directory. In \<open>/tmp\<close>, which is no project, \<open>console --skip-build\<close> calls the handler
  \<open>repl\<close> and \<open>db:drop --skip-build\<close> the handler \<open>dbdrop\<close>, and both end with code 0.
\<close>

theorem skip_build_outside_project:
  "inLuxProject (sample_runtime app_manifest all_resolve) (sample_world ''/tmp'') = False \<and>
   trace_from (sample_world ''/tmp'')
     (dispatch (sample_runtime app_manifest all_resolve) [''console''] [] skip_build_options (sample_world ''/tmp''))
   = [Invoke ''repl'' [], Handler ''repl'' [], Settle ''repl'' (Resolved Undefined), ProcessExit (JNum 0)] \<and>
   trace_from (sample_world ''/tmp'')
     (dispatch (sample_runtime app_manifest all_resolve) [''db:drop''] [] skip_build_options (sample_world ''/tmp''))
   = [Invoke ''dbdrop'' [], Handler ''dbdrop'' [], Settle ''dbdrop'' (Resolved Undefined), ProcessExit (JNum 0)] \<and>
   trace_from (sample_world ''/tmp'')
     (dispatch (sample_runtime app_manifest all_resolve) [''console''] [] no_options (sample_world ''/tmp''))
   = [Invoke ''build'' [JBool True],
      Settle ''build'' (Rejected \<lparr>message = ''Directory does not contain a valid Lux application.'',
                                 stack = ''Error: Directory does not contain a valid Lux application.''\<rparr>),
      ConsoleError ''Error: Directory does not contain a valid Lux application.'',
      ProcessExit (JNum 1)]"
  by code_simp

section \<open>What an error document discloses\<close>

lemma marker_length: "length public_marker = 8"
  by (simp add: public_marker_def)

lemma matches_here_canonical:
  "matches_here pat s = (map canonicalize (take (length pat) s) = map canonicalize pat)"
  by (induction pat s rule: matches_here.induct) auto

lemma occurs_at_0: "occurs_at s 0 = matches_here public_marker s"
  by (simp add: occurs_at_def matches_here_canonical)

lemma occurs_at_Suc: "occurs_at (c # cs) (Suc i) = occurs_at cs i"
  by (simp add: occurs_at_def)

lemma occurs_at_Nil: "\<not> occurs_at [] i"
  by (simp add: occurs_at_def public_marker_def)

lemma occurs_at_Cons: "(\<exists>i. occurs_at (c # cs) i) = (occurs_at (c # cs) 0 \<or> (\<exists>i. occurs_at cs i))"
proof
  assume "\<exists>i. occurs_at (c # cs) i"
  then obtain i where i: "occurs_at (c # cs) i" ..
  show "occurs_at (c # cs) 0 \<or> (\<exists>i. occurs_at cs i)"
  proof (cases i)
    case 0
    with i show ?thesis by simp
  next
    case (Suc k)
    with i have "occurs_at cs k" by (simp add: occurs_at_Suc)
    then show ?thesis by blast
  qed
next
  assume "occurs_at (c # cs) 0 \<or> (\<exists>i. occurs_at cs i)"
  then show "\<exists>i. occurs_at (c # cs) i"
    using occurs_at_Suc by blast
qed

lemma test_public_occurs: "test_public s = (\<exists>i. occurs_at s i)"
proof (induction s)
  case Nil
  then show ?case by (simp add: occurs_at_Nil)
next
  case (Cons c cs)
  then show ?case by (simp add: occurs_at_Cons occurs_at_0)
qed

lemma marker_removed_Cons:
  assumes "marker_removed cs out" and "\<not> occurs_at (c # cs) 0"
  shows "marker_removed (c # cs) (c # out)"
  using assms(1)
proof (cases rule: marker_removed.cases)
  case clean
  with assms(2) have "\<forall>i. \<not> occurs_at (c # cs) i"
    using occurs_at_Cons [of c cs] by blast
  from marker_removed.clean [OF this] clean show ?thesis by simp
next
  case (cut i out')
  have a: "occurs_at (c # cs) (Suc i)" using cut(2) by (simp add: occurs_at_Suc)
  have b: "\<forall>j<Suc i. \<not> occurs_at (c # cs) j"
  proof (intro allI impI)
    fix j assume "j < Suc i"
    with assms(2) cut(3) show "\<not> occurs_at (c # cs) j"
      by (cases j) (simp_all add: occurs_at_Suc)
  qed
  have c: "marker_removed (drop (Suc i + length public_marker) (c # cs)) out'"
    using cut(4) by simp
  from marker_removed.cut [OF a b c] cut(1) show ?thesis by simp
qed

lemma replace_public_removed: "marker_removed s (replace_public s)"
proof (induction s rule: replace_public.induct)
  case 1
  show ?case by (simp add: marker_removed.clean occurs_at_Nil)
next
  case (2 c cs)
  show ?case
  proof (cases "matches_here public_marker (c # cs)")
    case True
    then have a: "occurs_at (c # cs) 0" by (simp add: occurs_at_0)
    have b: "\<forall>j<0. \<not> occurs_at (c # cs) j" by simp
    from 2(1) [OF True]
    have c: "marker_removed (drop (0 + length public_marker) (c # cs)) (replace_public (drop 7 cs))"
      by (simp add: marker_length)
    from marker_removed.cut [OF a b c] True show ?thesis by simp
  next
    case False
    then have "\<not> occurs_at (c # cs) 0" by (simp add: occurs_at_0)
    from marker_removed_Cons [OF 2(2) [OF False] this] False show ?thesis by simp
  qed
qed

lemma marker_removed_unique:
  "marker_removed s a \<Longrightarrow> marker_removed s b \<Longrightarrow> a = b"
proof (induction arbitrary: b rule: marker_removed.induct)
  case (clean s)
  from clean(2) clean(1) show ?case by cases auto
next
  case (cut s i out)
  from cut(5) show ?case
  proof cases
    case clean
    with cut(1) show ?thesis by blast
  next
    case (cut j out')
    have "i = j"
    proof (rule ccontr)
      assume "i \<noteq> j"
      then consider "i < j" | "j < i" by linarith
      then show False
      proof cases
        case 1
        with cut(3) \<open>occurs_at s i\<close> show False by blast
      next
        case 2
        with \<open>\<forall>j<i. \<not> occurs_at s j\<close> cut(2) show False by blast
      qed
    qed
    with cut(1,4) cut.IH show ?thesis by blast
  qed
qed

text \<open>
  C10: outside development, two errors whose messages hold no occurrence of the marker
  get the same document, the one that no error gets. Whenever the document has a
  \<open>detail\<close>, there is an error and the detail is its message with every occurrence of
  the marker removed.
\<close>

theorem dataFor_disclosure:
  "((\<forall>i. \<not> occurs_at (message e1) i) \<longrightarrow> (\<forall>i. \<not> occurs_at (message e2) i) \<longrightarrow>
      dataFor codes version False st (Some e1) = dataFor codes version False st (Some e2) \<and>
      dataFor codes version False st (Some e1) = dataFor codes version False st None) \<and>
   (\<forall>errs v ed d.
      dataFor codes version dev st err = Document errs v \<longrightarrow> ed \<in> set errs \<longrightarrow>
      detail ed = Some d \<longrightarrow>
      (\<exists>e. err = Some e \<and> d = replace_public (message e) \<and> marker_removed (message e) d))"
proof -
  have hidden: "dataFor codes version False st (Some e) = dataFor codes version False st None"
    if "\<forall>i. \<not> occurs_at (message e) i" for e
    using that by (simp add: dataFor_def test_public_occurs)
  have shown: "\<exists>e. err = Some e \<and> d = replace_public (message e) \<and> marker_removed (message e) d"
    if "dataFor codes version dev st err = Document errs v" "ed \<in> set errs" "detail ed = Some d"
    for errs v ed d
  proof -
    from that obtain e where "err = Some e" "d = replace_public (message e)"
      by (auto simp: dataFor_def Let_def split: if_splits option.splits)
    with replace_public_removed [of "message e"] show ?thesis by simp
  qed
  from hidden [of e1] hidden [of e2] shown show ?thesis by metis
qed

theorem dataFor_disclosure_witness:
  "(\<forall>i. \<not> occurs_at (message (sample_error ''connect ECONNREFUSED 10.0.0.5:5432'')) i) \<and>
   (\<forall>i. \<not> occurs_at (message (sample_error ''relation users does not exist'')) i) \<and>
   dataFor sample_status_codes ''1.0'' False 500 (Some (sample_error ''connect ECONNREFUSED 10.0.0.5:5432''))
     = dataFor sample_status_codes ''1.0'' False 500 (Some (sample_error ''relation users does not exist'')) \<and>
   dataFor sample_status_codes ''1.0'' False 422 (Some (sample_error ''[Public] Email taken [public]''))
     = Document [\<lparr>status = ''422'', title = Some ''Unprocessable Entity'',
                    detail = Some '' Email taken ''\<rparr>] ''1.0'' \<and>
   marker_removed (message (sample_error ''[Public] Email taken [public]'')) '' Email taken ''"
proof -
  let ?e1 = "sample_error ''connect ECONNREFUSED 10.0.0.5:5432''"
  let ?e2 = "sample_error ''relation users does not exist''"
  let ?e3 = "sample_error ''[Public] Email taken [public]''"
  let ?ed = "\<lparr>status = ''422'', title = Some ''Unprocessable Entity'', detail = Some '' Email taken ''\<rparr>"
  have "\<not> test_public (message ?e1)" by code_simp
  then have a: "\<forall>i. \<not> occurs_at (message ?e1) i" by (simp add: test_public_occurs)
  have "\<not> test_public (message ?e2)" by code_simp
  then have b: "\<forall>i. \<not> occurs_at (message ?e2) i" by (simp add: test_public_occurs)
  have c: "dataFor sample_status_codes ''1.0'' False 422 (Some ?e3) = Document [?ed] ''1.0''"
    by code_simp
  have d: "?ed \<in> set [?ed]" "detail ?ed = Some '' Email taken ''" by simp_all
  from dataFor_disclosure [where ?e1.0 = ?e1 and ?e2.0 = ?e2 and codes = sample_status_codes
      and version = "''1.0''" and st = 500] a b
  have e: "dataFor sample_status_codes ''1.0'' False 500 (Some ?e1)
            = dataFor sample_status_codes ''1.0'' False 500 (Some ?e2)"
    by blast
  from dataFor_disclosure [where codes = sample_status_codes and version = "''1.0''"
      and st = 422 and dev = False and err = "Some ?e3"] c d
  have f: "marker_removed (message ?e3) '' Email taken ''"
    by blast
  from a b c e f show ?thesis by blast
qed

end
